theory Spec2Isabelle
  imports Main "HOL-Library.Word" "HOL-Library.Sublist"
begin

unbundle bit_operations_syntax

section \<open>Severity, language, policy and error records\<close>

text \<open>
  \<^verbatim>\<open>enum class Severity { Trace = 0, Debug = 1, Info = 2, Warning = 3, Error = 4, Fatal = 5 }\<close>
  (Severity.h). The comparisons of the source (\<^verbatim>\<open>sev < cfg->min_severity\<close>,
  \<^verbatim>\<open>sev >= Severity::Error\<close>) compare the underlying integers, which \<open>sev_val\<close> gives.
\<close>

datatype Severity = Trace | Debug | Info | Warning | Error | Fatal

fun sev_val :: "Severity \<Rightarrow> nat" where
  "sev_val Trace = 0"
| "sev_val Debug = 1"
| "sev_val Info = 2"
| "sev_val Warning = 3"
| "sev_val Error = 4"
| "sev_val Fatal = 5"

definition sev_lt :: "Severity \<Rightarrow> Severity \<Rightarrow> bool" where
  "sev_lt a b = (sev_val a < sev_val b)"

definition sev_ge :: "Severity \<Rightarrow> Severity \<Rightarrow> bool" where
  "sev_ge a b = (sev_val b \<le> sev_val a)"

text \<open>\<^verbatim>\<open>enum class Language { EnUS, PtBR }\<close> (Language.h).\<close>

datatype Language = EnUS | PtBR

text \<open>\<^verbatim>\<open>enum class Policy { Throw, Status }\<close> (ErrorConfig.h).\<close>

datatype Policy = Throw | Status

text \<open>
  \<^verbatim>\<open>struct ErrorRecord\<close> (ErrorRecord.h). The defaults of \<open>ts\<close> and \<open>tid\<close> read the
  system clock and the identity of the constructing thread; here both are inputs of
  every function that constructs a record. Strings are byte strings, as
  \<^verbatim>\<open>std::string\<close> is.
\<close>

record ErrorRecord =
  code :: "32 word"
  severity :: Severity
  message :: string
  ts :: nat
  tid :: nat

section \<open>Error traits and code packing (ErrorTraits.h)\<close>

text \<open>
  \<^verbatim>\<open>make_code\<close>: \<^verbatim>\<open>(static_cast<uint32_t>(domain) << 16) | static_cast<uint32_t>(value)\<close>.
\<close>

definition make_code :: "16 word \<Rightarrow> 16 word \<Rightarrow> 32 word" where
  "make_code domain val = push_bit 16 (ucast domain :: 32 word) OR (ucast val :: 32 word)"

text \<open>
  A specialisation \<^verbatim>\<open>ErrorTraits<E>\<close> of an enum \<open>E\<close> that satisfies the concept
  \<^verbatim>\<open>ErrorEnum\<close>: its six static members, and the conversion
  \<^verbatim>\<open>static_cast<std::uint16_t>(err_enum)\<close> that \<^verbatim>\<open>code\<close> applies to a value of \<open>E\<close>.
\<close>

record 'e ErrorTraits =
  domain_id :: "16 word"
  domain_name :: string
  key :: "'e \<Rightarrow> string"
  enUS :: "'e \<Rightarrow> string"
  ptBR :: "'e \<Rightarrow> string"
  default_severity :: "'e \<Rightarrow> Severity"
  to_u16 :: "'e \<Rightarrow> 16 word"

text \<open>
  \<^verbatim>\<open>code(E err_enum)\<close>:
  \<^verbatim>\<open>make_code(ErrorTraits<E>::domain_id(), static_cast<std::uint16_t>(err_enum))\<close>.
  (Named \<open>code_of\<close>, since \<open>code\<close> is the field of the record.)
\<close>

definition code_of :: "'e ErrorTraits \<Rightarrow> 'e \<Rightarrow> 32 word" where
  "code_of tr err_enum = make_code (domain_id tr) (to_u16 tr err_enum)"

section \<open>The Core domain (CoreErrors.h)\<close>

text \<open>
  \<^verbatim>\<open>enum class CoreErr : std::uint16_t\<close>. The underlying type is fixed, so every 16-bit
  value is a value of the enumeration (\<^verbatim>\<open>static_cast<CoreErr>(v)\<close> is defined for every
  \<open>v\<close>); a \<open>CoreErr\<close> is modelled by its underlying value.
\<close>

type_synonym CoreErr = "16 word"

definition InvalidArgument :: CoreErr where "InvalidArgument = 1"
definition OutOfRange :: CoreErr where "OutOfRange = 2"
definition NotImplemented :: CoreErr where "NotImplemented = 3"
definition AssertFailed :: CoreErr where "AssertFailed = 4"
definition InconsistentGeometry :: CoreErr where "InconsistentGeometry = 5"
definition CoreErr_Min :: CoreErr where "CoreErr_Min = InvalidArgument"
definition CoreErr_Max :: CoreErr where "CoreErr_Max = InconsistentGeometry"

lemmas CoreErr_defs = InvalidArgument_def OutOfRange_def NotImplemented_def
  AssertFailed_def InconsistentGeometry_def CoreErr_Min_def CoreErr_Max_def

text \<open>
  \<^verbatim>\<open>struct CoreErrorInfo { sv key; Severity severity; sv enUS; sv ptBR; }\<close>. The fields
  carry the prefix \<open>info_\<close>, since the traits and the error record have fields of the
  same names.
\<close>

record CoreErrorInfo =
  info_key :: string
  info_severity :: Severity
  info_enUS :: string
  info_ptBR :: string

text \<open>The value \<^verbatim>\<open>{sv{}, Severity::Trace, sv{}, sv{}}\<close> of both fall-back returns.\<close>

definition empty_info :: CoreErrorInfo where
  "empty_info = \<lparr>info_key = [], info_severity = Trace, info_enUS = [], info_ptBR = []\<rparr>"

text \<open>
  \<^verbatim>\<open>get_core_error_info_data\<close>: the \<^verbatim>\<open>switch\<close> with its \<^verbatim>\<open>default\<close>. The Portuguese
  templates are UTF-8: the bytes of the accented letters are written out.
\<close>

definition get_core_error_info_data :: "CoreErr \<Rightarrow> CoreErrorInfo" where
  "get_core_error_info_data e =
    (if e = InvalidArgument then
       \<lparr>info_key = ''CORE_INVALID_ARGUMENT'', info_severity = Error,
        info_enUS = ''Invalid argument: {name}.'',
        info_ptBR = ''Argumento inv'' @ [CHR 0xC3, CHR 0xA1] @ ''lido: {name}.''\<rparr>
     else if e = OutOfRange then
       \<lparr>info_key = ''CORE_OUT_OF_RANGE'', info_severity = Error,
        info_enUS = ''Index out of range: {index}.'',
        info_ptBR = [CHR 0xC3, CHR 0x8D] @ ''ndice fora do intervalo: {index}.''\<rparr>
     else if e = NotImplemented then
       \<lparr>info_key = ''CORE_NOT_IMPLEMENTED'', info_severity = Warning,
        info_enUS = ''Feature not implemented.'',
        info_ptBR = ''Recurso n'' @ [CHR 0xC3, CHR 0xA3] @ ''o implementado.''\<rparr>
     else if e = AssertFailed then
       \<lparr>info_key = ''CORE_ASSERT_FAILED'', info_severity = Fatal,
        info_enUS = ''Assertion failed.'',
        info_ptBR = ''Falha de asser'' @ [CHR 0xC3, CHR 0xA7, CHR 0xC3, CHR 0xA3] @ ''o.''\<rparr>
     else if e = InconsistentGeometry then
       \<lparr>info_key = ''CORE_INCONSISTENT_GEOMETRY'', info_severity = Error,
        info_enUS = ''Geometric inconsistency detected: {details}.'',
        info_ptBR = ''Inconsist'' @ [CHR 0xC3, CHR 0xAA] @ ''ncia geom'' @ [CHR 0xC3, CHR 0xA9]
                      @ ''trica detectada: {details}.''\<rparr>
     else empty_info)"

text \<open>
  \<^verbatim>\<open>get_core_info\<close>: the range check on the underlying values, then the table.
\<close>

definition get_core_info :: "CoreErr \<Rightarrow> CoreErrorInfo" where
  "get_core_info e =
    (if CoreErr_Min \<le> e \<and> e \<le> CoreErr_Max then get_core_error_info_data e
     else empty_info)"

text \<open>\<^verbatim>\<open>template <> struct ErrorTraits<CoreErr>\<close>.\<close>

definition CoreErr_traits :: "CoreErr ErrorTraits" where
  "CoreErr_traits =
    \<lparr>domain_id = 0x0001, domain_name = ''Core'',
     key = (\<lambda>e. info_key (get_core_info e)),
     enUS = (\<lambda>e. info_enUS (get_core_info e)),
     ptBR = (\<lambda>e. info_ptBR (get_core_info e)),
     default_severity = (\<lambda>e. info_severity (get_core_info e)),
     to_u16 = (\<lambda>e. e)\<rparr>"

section \<open>Message rendering (Detail.h, step 4 of \<^verbatim>\<open>log_error\<close>)\<close>

text \<open>
  \<^verbatim>\<open>std::string token = "{"; token.append(k); token += "}";\<close>
\<close>

definition token :: "string \<Rightarrow> string" where
  "token k = CHR ''{'' # k @ ''}''"

text \<open>
  \<^verbatim>\<open>out.find(token, pos)\<close>: the least index \<open>p \<ge> pos\<close> at which \<open>token\<close> occurs in
  \<open>out\<close>, \<^verbatim>\<open>npos\<close> (here \<open>None\<close>) when there is none or when \<open>pos\<close> is beyond the
  end. \<open>find_first\<close> is the search from the start of a string.
\<close>

fun find_first :: "string \<Rightarrow> string \<Rightarrow> nat option" where
  "find_first tok [] = (if tok = [] then Some 0 else None)"
| "find_first tok (c # cs) =
     (if prefix tok (c # cs) then Some 0 else map_option Suc (find_first tok cs))"

definition str_find :: "string \<Rightarrow> string \<Rightarrow> nat \<Rightarrow> nat option" where
  "str_find out tok pos =
     (if length out < pos then None
      else map_option (\<lambda>i. pos + i) (find_first tok (drop pos out)))"

text \<open>\<^verbatim>\<open>out.replace(pos, len, v)\<close>, for \<open>pos\<close> within the string.\<close>

definition str_replace :: "string \<Rightarrow> nat \<Rightarrow> nat \<Rightarrow> string \<Rightarrow> string" where
  "str_replace out pos len v = take pos out @ v @ drop (pos + len) out"

text \<open>
  The inner loop, from a cursor \<open>pos\<close>:
  \<^verbatim>\<open>while ((pos = out.find(token, pos)) != npos) { out.replace(pos, token.size(), v); pos += v.size(); }\<close>
\<close>

function replace_loop :: "string \<Rightarrow> string \<Rightarrow> string \<Rightarrow> nat \<Rightarrow> string" where
  "replace_loop k v out pos =
     (case str_find out (token k) pos of
        None \<Rightarrow> out
      | Some p \<Rightarrow> replace_loop k v (str_replace out p (length (token k)) v) (p + length v))"
  by pat_completeness auto
termination
proof (relation "measure (\<lambda>(k, v, out, pos). length out - pos)")
  show "wf (measure (\<lambda>(k, v, out, pos). length out - pos))" by simp
next
  fix k v :: string and out :: string and pos p :: nat
  assume f: "str_find out (token k) pos = Some p"
  have ff: "i + length tok \<le> length s" if "find_first tok s = Some i" for tok s i
    using that
  proof (induction s arbitrary: i)
    case Nil
    then show ?case by (simp split: if_splits)
  next
    case (Cons c cs)
    show ?case
    proof (cases "prefix tok (c # cs)")
      case True
      with Cons.prems have "i = 0" by simp
      with prefix_length_le [OF True] show ?thesis by simp
    next
      case False
      with Cons.prems obtain j where "find_first tok cs = Some j" "i = Suc j" by auto
      with Cons.IH show ?thesis by simp
    qed
  qed
  from f obtain i where i: "find_first (token k) (drop pos out) = Some i" "p = pos + i"
    and le: "pos \<le> length out"
    by (auto simp: str_find_def split: if_splits)
  from ff [OF i(1)] le have b: "p + length (token k) \<le> length out"
    by (simp add: i(2))
  have n: "0 < length (token k)" by (simp add: token_def)
  have "length (str_replace out p (length (token k)) v) - (p + length v)
          = length out - (p + length (token k))"
    using b by (simp add: str_replace_def)
  moreover have "length out - (p + length (token k)) < length out - pos"
    using b n i(2) by arith
  ultimately
  show "((k, v, str_replace out p (length (token k)) v, p + length v), (k, v, out, pos))
          \<in> measure (\<lambda>(k, v, out, pos). length out - pos)"
    by simp
qed

text \<open>The pass for one pair starts with \<^verbatim>\<open>pos = 0\<close>.\<close>

definition replace_all :: "string \<Rightarrow> string \<Rightarrow> string \<Rightarrow> string" where
  "replace_all k v out = replace_loop k v out 0"

text \<open>
  \<^verbatim>\<open>std::string out(tmpl); for (const auto& [k, v] : kv) { ... }\<close>: one pass for each
  pair, in the order of the list, each on the string that the passes before it left.
\<close>

fun render :: "(string \<times> string) list \<Rightarrow> string \<Rightarrow> string" where
  "render [] out = out"
| "render ((k, v) # kv) out = render kv (replace_all k v out)"

section \<open>Loggers and the global configuration (IErrorLogger.h, ErrorConfig.h)\<close>

text \<open>
  \<^verbatim>\<open>class IErrorLogger\<close>: an object with \<^verbatim>\<open>log(record)\<close> and \<^verbatim>\<open>flush()\<close>. The library's
  own implementation is \<open>ThreadLocalBufferLogger\<close>; any other implementation is a
  \<open>CustomLogger\<close>, given by what its two methods do to the state \<open>'x\<close> of the logger
  objects of the client. The \<^verbatim>\<open>flush\<close> of the base class, which a logger may keep, is
  \<open>default_flush\<close>.
\<close>

datatype 'x IErrorLogger =
    ThreadLocalBufferLogger
  | CustomLogger "ErrorRecord \<Rightarrow> 'x \<Rightarrow> 'x" "'x \<Rightarrow> ErrorRecord list \<times> 'x"

definition default_flush :: "'x \<Rightarrow> ErrorRecord list \<times> 'x" where
  "default_flush x = ([], x)"

text \<open>
  \<^verbatim>\<open>struct ErrorConfig\<close>. \<open>logger\<close> is a \<^verbatim>\<open>std::shared_ptr<IErrorLogger>\<close>, which may be
  null (\<open>None\<close>). \<open>thread_buffer_cap\<close> is a \<^verbatim>\<open>std::size_t\<close>, only ever compared with the
  size of a buffer.
\<close>

record 'x ErrorConfig =
  language :: Language
  policy :: Policy
  min_severity :: Severity
  thread_buffer_cap :: nat
  logger :: "'x IErrorLogger option"

text \<open>
  The member initialisers and the constructor \<^verbatim>\<open>ErrorConfig::ErrorConfig()\<close>
  (ErrorManager.h).
\<close>

definition default_config :: "'x ErrorConfig" where
  "default_config =
     \<lparr>language = PtBR, policy = Throw, min_severity = Warning, thread_buffer_cap = 256,
      logger = Some ThreadLocalBufferLogger\<rparr>"

text \<open>
  The state of the process, as far as the error subsystem goes.
  \<^item> \<open>cfg_heap\<close>: the \<^verbatim>\<open>const ErrorConfig\<close> objects that \<^verbatim>\<open>std::make_shared\<close> has
    allocated and that are still alive, each under its address;
  \<^item> \<open>cfg_ptr\<close>: \<^verbatim>\<open>Config::ptr_\<close>, the address of the current configuration (a
    \<^verbatim>\<open>shared_ptr\<close>, so possibly null);
  \<^item> \<open>cfg_refs\<close>: the snapshots that callers of \<^verbatim>\<open>Config::get()\<close> hold, each with the
    thread that holds it;
  \<^item> \<open>tl_buf\<close>: the \<^verbatim>\<open>static thread_local std::vector<ErrorRecord> tl_buf\<close> of
    \<^verbatim>\<open>ThreadLocalBufferLogger::buffer()\<close>, one for each thread;
  \<^item> \<open>ext\<close>: the state of the custom logger objects.
  A \<^verbatim>\<open>shared_ptr\<close> keeps its object alive while a reference to it exists; an object
  that neither \<open>cfg_ptr\<close> nor a held snapshot refers to is destroyed (\<open>reclaim\<close>).
\<close>

record 'x fvg_state =
  cfg_heap :: "(nat \<times> 'x ErrorConfig) list"
  cfg_ptr :: "nat option"
  cfg_refs :: "(nat \<times> nat) list"
  tl_buf :: "nat \<Rightarrow> ErrorRecord list"
  ext :: 'x

definition deref :: "'x fvg_state \<Rightarrow> nat \<Rightarrow> 'x ErrorConfig option" where
  "deref s a = map_of (cfg_heap s) a"

definition referenced :: "'x fvg_state \<Rightarrow> nat \<Rightarrow> bool" where
  "referenced s a = (cfg_ptr s = Some a \<or> a \<in> set (map snd (cfg_refs s)))"

definition reclaim :: "'x fvg_state \<Rightarrow> 'x fvg_state" where
  "reclaim s = s\<lparr>cfg_heap := filter (\<lambda>(a, c). referenced s a) (cfg_heap s)\<rparr>"

text \<open>The address of a new allocation: one that no live object has.\<close>

definition fresh_addr :: "(nat \<times> 'x ErrorConfig) list \<Rightarrow> nat" where
  "fresh_addr h = Suc (foldr max (map fst h) 0)"

text \<open>
  \<^verbatim>\<open>Config::get()\<close>, called by thread \<open>t\<close>: a copy of \<^verbatim>\<open>ptr_\<close>, made under the mutex. The
  caller now holds a reference to the object.
\<close>

definition Config_get :: "nat \<Rightarrow> 'x fvg_state \<Rightarrow> nat option \<times> 'x fvg_state" where
  "Config_get t s =
     (case cfg_ptr s of
        None \<Rightarrow> (None, s)
      | Some a \<Rightarrow> (Some a, s\<lparr>cfg_refs := (t, a) # cfg_refs s\<rparr>))"

text \<open>The end of the life of a snapshot that thread \<open>t\<close> holds on the object at \<open>a\<close>.\<close>

definition snapshot_release :: "nat \<Rightarrow> nat \<Rightarrow> 'x fvg_state \<Rightarrow> 'x fvg_state" where
  "snapshot_release t a s = reclaim (s\<lparr>cfg_refs := remove1 (t, a) (cfg_refs s)\<rparr>)"

text \<open>
  \<^verbatim>\<open>Config::set(cfg)\<close>: \<^verbatim>\<open>auto sp = std::make_shared<const ErrorConfig>(std::move(cfg));\<close>
  allocates a new object; \<^verbatim>\<open>instance().ptr_ = sp;\<close>, under the mutex, makes it the
  current one and gives up the reference to the object that was current.
\<close>

definition Config_set :: "'x ErrorConfig \<Rightarrow> 'x fvg_state \<Rightarrow> 'x fvg_state" where
  "Config_set cfg s =
     (let sp = fresh_addr (cfg_heap s)
      in reclaim (s\<lparr>cfg_heap := (sp, cfg) # cfg_heap s, cfg_ptr := Some sp\<rparr>))"

text \<open>
  Inside the library every use has the shape \<^verbatim>\<open>auto cfg = Config::get(); if (!cfg) return; ... cfg->field ...\<close>,
  with the snapshot released when the function returns. What such a function observes
  is the object that \<^verbatim>\<open>ptr_\<close> refers to at the call, if any.
\<close>

definition Config_read :: "'x fvg_state \<Rightarrow> 'x ErrorConfig option" where
  "Config_read s = (case cfg_ptr s of None \<Rightarrow> None | Some a \<Rightarrow> deref s a)"

text \<open>
  The constructor \<^verbatim>\<open>Config() : ptr_(std::make_shared<const ErrorConfig>())\<close>: the state
  at the first use, with every thread's buffer empty.
\<close>

definition initial_state :: "'x \<Rightarrow> 'x fvg_state" where
  "initial_state x =
     \<lparr>cfg_heap = [(1, default_config)], cfg_ptr = Some 1, cfg_refs = [],
      tl_buf = (\<lambda>t. []), ext = x\<rparr>"

section \<open>The thread-local logger and the manager (ErrorManager.h)\<close>

text \<open>
  \<^verbatim>\<open>ThreadLocalBufferLogger::log\<close>, called on thread \<open>t\<close>:
  \<^verbatim>\<open>auto cfg = Config::get(); if (!cfg) return; auto cap = cfg->thread_buffer_cap; auto& buf = buffer(); if (buf.size() < cap) buf.push_back(record);\<close>
\<close>

definition ThreadLocalBufferLogger_log ::
  "nat \<Rightarrow> ErrorRecord \<Rightarrow> 'x fvg_state \<Rightarrow> 'x fvg_state" where
  "ThreadLocalBufferLogger_log t r s =
     (case Config_read s of
        None \<Rightarrow> s
      | Some cfg \<Rightarrow>
          (let cap = thread_buffer_cap cfg; buf = tl_buf s t
           in if length buf < cap then s\<lparr>tl_buf := (tl_buf s)(t := buf @ [r])\<rparr> else s))"

text \<open>
  \<^verbatim>\<open>ThreadLocalBufferLogger::flush\<close>, called on thread \<open>t\<close>:
  \<^verbatim>\<open>auto& buf = buffer(); std::vector<ErrorRecord> out; out.swap(buf); return out;\<close>
\<close>

definition ThreadLocalBufferLogger_flush ::
  "nat \<Rightarrow> 'x fvg_state \<Rightarrow> ErrorRecord list \<times> 'x fvg_state" where
  "ThreadLocalBufferLogger_flush t s = (tl_buf s t, s\<lparr>tl_buf := (tl_buf s)(t := [])\<rparr>)"

text \<open>The virtual calls \<^verbatim>\<open>logger->log(rec)\<close> and \<^verbatim>\<open>logger->flush()\<close>.\<close>

fun logger_log :: "'x IErrorLogger \<Rightarrow> nat \<Rightarrow> ErrorRecord \<Rightarrow> 'x fvg_state \<Rightarrow> 'x fvg_state" where
  "logger_log ThreadLocalBufferLogger t r s = ThreadLocalBufferLogger_log t r s"
| "logger_log (CustomLogger l f) t r s = s\<lparr>ext := l r (ext s)\<rparr>"

fun logger_flush :: "'x IErrorLogger \<Rightarrow> nat \<Rightarrow> 'x fvg_state \<Rightarrow> ErrorRecord list \<times> 'x fvg_state" where
  "logger_flush ThreadLocalBufferLogger t s = ThreadLocalBufferLogger_flush t s"
| "logger_flush (CustomLogger l f) t s = (fst (f (ext s)), s\<lparr>ext := snd (f (ext s))\<rparr>)"

text \<open>
  \<^verbatim>\<open>ErrorManager::log\<close>:
  \<^verbatim>\<open>if (auto cfg = Config::get()) { if (cfg->logger) { cfg->logger->log(std::move(rec)); } }\<close>
\<close>

definition ErrorManager_log :: "nat \<Rightarrow> ErrorRecord \<Rightarrow> 'x fvg_state \<Rightarrow> 'x fvg_state" where
  "ErrorManager_log t r s =
     (case Config_read s of
        None \<Rightarrow> s
      | Some cfg \<Rightarrow> (case logger cfg of None \<Rightarrow> s | Some lg \<Rightarrow> logger_log lg t r s))"

text \<open>
  \<^verbatim>\<open>ErrorManager::flush\<close>:
  \<^verbatim>\<open>if (auto cfg = Config::get()) { if (cfg->logger) { return cfg->logger->flush(); } } return {};\<close>
\<close>

definition ErrorManager_flush :: "nat \<Rightarrow> 'x fvg_state \<Rightarrow> ErrorRecord list \<times> 'x fvg_state" where
  "ErrorManager_flush t s =
     (case Config_read s of
        None \<Rightarrow> ([], s)
      | Some cfg \<Rightarrow> (case logger cfg of None \<Rightarrow> ([], s) | Some lg \<Rightarrow> logger_flush lg t s))"

section \<open>Dispatch and the raise operation (Detail.h, Macros.h)\<close>

text \<open>
  \<^verbatim>\<open>detail::log_error(err_enum, kv)\<close>, called on thread \<open>t\<close> when the clock reads \<open>now\<close>:
  the snapshot, the severity filter, the template of the configured language, the
  substitution, and the record handed to \<^verbatim>\<open>ErrorManager::log\<close>.
\<close>

definition log_error ::
  "'e ErrorTraits \<Rightarrow> nat \<Rightarrow> nat \<Rightarrow> 'e \<Rightarrow> (string \<times> string) list \<Rightarrow> 'x fvg_state \<Rightarrow> 'x fvg_state" where
  "log_error tr t now err_enum kv s =
     (case Config_read s of
        None \<Rightarrow> s
      | Some cfg \<Rightarrow>
          (let sev = default_severity tr err_enum
           in if sev_lt sev (min_severity cfg) then s
              else
                (let tmpl = (if language cfg = PtBR then ptBR tr err_enum else enUS tr err_enum);
                     out = render kv tmpl
                 in ErrorManager_log t
                      \<lparr>code = code_of tr err_enum, severity = sev, message = out,
                       ts = now, tid = t\<rparr> s)))"

text \<open>
  What can unwind the stack. Modelled from the spec: the class \<open>FVGException\<close>
  (FVGException.h, which is not among the sources), an exception that is constructed from
  an \<open>ErrorRecord\<close> and carries it. \<open>bad_optional_access\<close> is the exception of
  \<^verbatim>\<open>std::optional<T>::value()\<close>.
\<close>

datatype exn = FVGException ErrorRecord | bad_optional_access

text \<open>
  The message of the fall-back record of \<^verbatim>\<open>FVG_ERROR\<close> (Portuguese for "serious error
  thrown (check log/severity)"), in UTF-8: the c with cedilla is the bytes C3 A7.
\<close>

definition fallback_message :: string where
  "fallback_message =
     ''Erro grave lan'' @ [CHR 0xC3, CHR 0xA7] @ ''ado (verifique log/severidade)''"

text \<open>
  The macro \<^verbatim>\<open>FVG_ERROR(ERR_CODE, ...)\<close>, expanded on thread \<open>t\<close>. \<open>now\<close> is the reading of
  the clock when \<^verbatim>\<open>log_error\<close> builds its record, \<open>now'\<close> the reading when the fall-back
  record is built. The result is \<open>Inl\<close> of the exception thrown, or \<open>Inr ()\<close> when the
  statement completes, with the state it leaves.
\<close>

definition FVG_ERROR ::
  "'e ErrorTraits \<Rightarrow> nat \<Rightarrow> nat \<Rightarrow> nat \<Rightarrow> 'e \<Rightarrow> (string \<times> string) list \<Rightarrow> 'x fvg_state
     \<Rightarrow> (exn + unit) \<times> 'x fvg_state" where
  "FVG_ERROR tr t now now' err_enum kv s =
     (let s1 = log_error tr t now err_enum kv s
      in case Config_read s1 of
           None \<Rightarrow> (Inr (), s1)
         | Some cfg \<Rightarrow>
             if policy cfg = Throw then
               (let sev = default_severity tr err_enum
                in if sev_ge sev Error then
                     (let (errors, s2) = ErrorManager_flush t s1
                      in if errors \<noteq> [] then (Inl (FVGException (last errors)), s2)
                         else (Inl (FVGException
                                 \<lparr>code = code_of tr err_enum, severity = sev,
                                  message = fallback_message, ts = now', tid = t\<rparr>), s2))
                   else (Inr (), s1))
             else (Inr (), s1))"

text \<open>
  \<^verbatim>\<open>FVG_ASSERT(condition, ...)\<close>: \<^verbatim>\<open>if (!(condition)) FVG_ERROR(CoreErr::AssertFailed, ...)\<close>.
\<close>

definition FVG_ASSERT ::
  "nat \<Rightarrow> nat \<Rightarrow> nat \<Rightarrow> bool \<Rightarrow> (string \<times> string) list \<Rightarrow> 'x fvg_state
     \<Rightarrow> (exn + unit) \<times> 'x fvg_state" where
  "FVG_ASSERT t now now' condition kv s =
     (if \<not> condition then FVG_ERROR CoreErr_traits t now now' AssertFailed kv s
      else (Inr (), s))"

section \<open>Status and StatusOr (Status.h)\<close>

text \<open>
  A default-constructed \<^verbatim>\<open>ErrorRecord\<close>: \<^verbatim>\<open>code{0}\<close>, \<^verbatim>\<open>severity{Severity::Error}\<close>, an
  empty message, the time and the thread of its construction.
\<close>

definition default_record :: "nat \<Rightarrow> nat \<Rightarrow> ErrorRecord" where
  "default_record now t = \<lparr>code = 0, severity = Error, message = [], ts = now, tid = t\<rparr>"

text \<open>
  \<^verbatim>\<open>class Status\<close>, with its members \<^verbatim>\<open>ok_\<close> and \<^verbatim>\<open>record_\<close>; \<^verbatim>\<open>Status()\<close> (and
  \<^verbatim>\<open>Status::OK()\<close>) and \<^verbatim>\<open>Status(ErrorRecord)\<close>.
\<close>

record Status =
  ok_m :: bool
  record_m :: ErrorRecord

definition Status_OK :: "nat \<Rightarrow> nat \<Rightarrow> Status" where
  "Status_OK now t = \<lparr>ok_m = True, record_m = default_record now t\<rparr>"

definition Status_of_record :: "ErrorRecord \<Rightarrow> Status" where
  "Status_of_record r = \<lparr>ok_m = False, record_m = r\<rparr>"

definition Status_ok :: "Status \<Rightarrow> bool" where
  "Status_ok st = ok_m st"

text \<open>
  \<^verbatim>\<open>template <typename T> class StatusOr\<close>, with its members
  \<^verbatim>\<open>std::optional<T> value_\<close> and \<^verbatim>\<open>Status status_{Status::OK()}\<close>. The constructors from
  a \<open>T\<close> fill \<open>value_\<close> and leave \<open>status_\<close> to its initialiser; the constructor from a
  \<open>Status\<close> fills \<open>status_\<close> and leaves \<open>value_\<close> empty.
\<close>

record 'a StatusOr =
  value_m :: "'a option"
  status_m :: Status

definition StatusOr_of_value :: "nat \<Rightarrow> nat \<Rightarrow> 'a \<Rightarrow> 'a StatusOr" where
  "StatusOr_of_value now t v = \<lparr>value_m = Some v, status_m = Status_OK now t\<rparr>"

definition StatusOr_of_status :: "Status \<Rightarrow> 'a StatusOr" where
  "StatusOr_of_status st = \<lparr>value_m = None, status_m = st\<rparr>"

text \<open>\<^verbatim>\<open>ok()\<close>: \<^verbatim>\<open>return status_.ok();\<close>\<close>

definition StatusOr_ok :: "'a StatusOr \<Rightarrow> bool" where
  "StatusOr_ok so = Status_ok (status_m so)"

text \<open>
  \<^verbatim>\<open>value()\<close>: \<^verbatim>\<open>return value_.value();\<close>, which throws \<^verbatim>\<open>std::bad_optional_access\<close>
  when the optional is empty.
\<close>

definition StatusOr_value :: "'a StatusOr \<Rightarrow> exn + 'a" where
  "StatusOr_value so = (case value_m so of None \<Rightarrow> Inl bad_optional_access | Some v \<Rightarrow> Inr v)"

section \<open>Records, traces and examples used in the statements\<close>

text \<open>
  The record that \<^verbatim>\<open>log_error\<close> constructs and hands to \<^verbatim>\<open>ErrorManager::log\<close> under the
  configuration \<open>cfg\<close>, and the fall-back record of \<^verbatim>\<open>FVG_ERROR\<close>
  (\<^verbatim>\<open>{code(ERR_CODE), fvg_err_sev_, "..."}\<close>).
\<close>

definition log_record ::
  "'e ErrorTraits \<Rightarrow> 'x ErrorConfig \<Rightarrow> nat \<Rightarrow> nat \<Rightarrow> 'e \<Rightarrow> (string \<times> string) list \<Rightarrow> ErrorRecord" where
  "log_record tr cfg t now e kv =
     \<lparr>code = code_of tr e, severity = default_severity tr e,
      message = render kv (if language cfg = PtBR then ptBR tr e else enUS tr e),
      ts = now, tid = t\<rparr>"

definition fallback_record :: "'e ErrorTraits \<Rightarrow> nat \<Rightarrow> nat \<Rightarrow> 'e \<Rightarrow> ErrorRecord" where
  "fallback_record tr t now' e =
     \<lparr>code = code_of tr e, severity = default_severity tr e,
      message = fallback_message, ts = now', tid = t\<rparr>"

text \<open>A key without braces, as the placeholders of the message templates have.\<close>

definition brace_free :: "string \<Rightarrow> bool" where
  "brace_free k = (CHR ''{'' \<notin> set k \<and> CHR ''}'' \<notin> set k)"

text \<open>
  Thread \<open>t\<close> calls \<^verbatim>\<open>ThreadLocalBufferLogger::log\<close> on each record of a list, in order.
\<close>

definition log_all :: "nat \<Rightarrow> ErrorRecord list \<Rightarrow> 'x fvg_state \<Rightarrow> 'x fvg_state" where
  "log_all t recs s = fold (ThreadLocalBufferLogger_log t) recs s"

text \<open>
  An interleaving of calls of the thread-local logger: each step is a thread and the
  method it calls. \<open>run_ops\<close> returns what every \<^verbatim>\<open>flush\<close> returned, with its thread, in
  the order of the calls, and the final state.
\<close>

datatype tl_op = Log ErrorRecord | Flush

fun run_ops ::
  "(nat \<times> tl_op) list \<Rightarrow> 'x fvg_state \<Rightarrow> (nat \<times> ErrorRecord list) list \<times> 'x fvg_state" where
  "run_ops [] s = ([], s)"
| "run_ops ((t, Log r) # ops) s = run_ops ops (ThreadLocalBufferLogger_log t r s)"
| "run_ops ((t, Flush) # ops) s =
     ((t, fst (ThreadLocalBufferLogger_flush t s))
        # fst (run_ops ops (snd (ThreadLocalBufferLogger_flush t s))),
      snd (run_ops ops (snd (ThreadLocalBufferLogger_flush t s))))"

text \<open>Everything the flushes of thread \<open>t\<close> returned, in order.\<close>

definition flushed_by :: "nat \<Rightarrow> (nat \<times> ErrorRecord list) list \<Rightarrow> ErrorRecord list" where
  "flushed_by t outs = concat (map snd (filter (\<lambda>(t', out). t' = t) outs))"

text \<open>The records that thread \<open>t\<close> logs in an interleaving, in order.\<close>

fun logged_by :: "nat \<Rightarrow> (nat \<times> tl_op) list \<Rightarrow> ErrorRecord list" where
  "logged_by t [] = []"
| "logged_by t ((t', Log r) # ops) = (if t' = t then r # logged_by t ops else logged_by t ops)"
| "logged_by t ((t', Flush) # ops) = logged_by t ops"

text \<open>
  The specification's notion of the records accepted into the buffer of thread \<open>t\<close>,
  written from its words and not from the code: a record that \<open>t\<close> logs is accepted when
  \<open>t\<close> has had fewer than \<open>c\<close> records accepted since its last flush (\<open>n\<close> counts them).
\<close>

fun spec_accepted :: "nat \<Rightarrow> nat \<Rightarrow> nat \<Rightarrow> (nat \<times> tl_op) list \<Rightarrow> ErrorRecord list" where
  "spec_accepted c t n [] = []"
| "spec_accepted c t n ((t', Log r) # ops) =
     (if t' = t then (if n < c then r # spec_accepted c t (Suc n) ops
                      else spec_accepted c t n ops)
      else spec_accepted c t n ops)"
| "spec_accepted c t n ((t', Flush) # ops) =
     (if t' = t then spec_accepted c t 0 ops else spec_accepted c t n ops)"

text \<open>
  An interleaving of calls that touch the configuration or go through the manager, by any
  threads: \<^verbatim>\<open>Config::get()\<close> by a thread that keeps the snapshot, \<^verbatim>\<open>Config::set(cfg)\<close>, the
  release of a snapshot, \<^verbatim>\<open>ErrorManager::log\<close> and \<^verbatim>\<open>ErrorManager::flush\<close>.
\<close>

datatype 'x cfg_op =
    OpGet nat
  | OpSet "'x ErrorConfig"
  | OpRelease nat nat
  | OpLog nat ErrorRecord
  | OpFlush nat

fun step :: "'x cfg_op \<Rightarrow> 'x fvg_state \<Rightarrow> 'x fvg_state" where
  "step (OpGet t) s = snd (Config_get t s)"
| "step (OpSet cfg) s = Config_set cfg s"
| "step (OpRelease t a) s = snapshot_release t a s"
| "step (OpLog t r) s = ErrorManager_log t r s"
| "step (OpFlush t) s = snd (ErrorManager_flush t s)"

definition run :: "'x cfg_op list \<Rightarrow> 'x fvg_state \<Rightarrow> 'x fvg_state" where
  "run ops s = fold step ops s"

text \<open>Thread \<open>t\<close> holds a snapshot of the object at \<open>a\<close>; a step in which \<open>t\<close> gives one up.\<close>

definition holds :: "'x fvg_state \<Rightarrow> nat \<Rightarrow> nat \<Rightarrow> bool" where
  "holds s t a = ((t, a) \<in> set (cfg_refs s))"

fun releases :: "nat \<Rightarrow> 'x cfg_op \<Rightarrow> bool" where
  "releases t (OpRelease t' a) = (t' = t)"
| "releases t (OpGet t') = False"
| "releases t (OpSet cfg) = False"
| "releases t (OpLog t' r) = False"
| "releases t (OpFlush t') = False"

text \<open>Configurations and records of the examples.\<close>

definition cfg_min_fatal :: "unit ErrorConfig" where
  "cfg_min_fatal = default_config\<lparr>min_severity := Fatal\<rparr>"

definition cfg_cap1 :: "unit ErrorConfig" where
  "cfg_cap1 = default_config\<lparr>thread_buffer_cap := 1\<rparr>"

definition cfg_cap2 :: "unit ErrorConfig" where
  "cfg_cap2 = default_config\<lparr>thread_buffer_cap := 2\<rparr>"

definition cfg_no_logger :: "unit ErrorConfig" where
  "cfg_no_logger = default_config\<lparr>logger := None\<rparr>"

definition cfg_status :: "unit ErrorConfig" where
  "cfg_status = default_config\<lparr>policy := Status\<rparr>"

text \<open>
  A configuration with a custom logger that keeps the records in a list of its own, as the
  \<^verbatim>\<open>MockLogger\<close> of the repository's tests does
  (\<^verbatim>\<open>logs.push_back(r)\<close>; \<^verbatim>\<open>flush\<close> returns the list and clears it).
\<close>

definition cfg_mock :: "(ErrorRecord list) ErrorConfig" where
  "cfg_mock = default_config\<lparr>logger := Some (CustomLogger (\<lambda>r x. x @ [r]) (\<lambda>x. (x, [])))\<rparr>"

definition rec_n :: "nat \<Rightarrow> ErrorRecord" where
  "rec_n n = \<lparr>code = of_nat n, severity = Error, message = ''E'', ts = n, tid = 0\<rparr>"

section \<open>Code packing\<close>

lemma make_code_disjoint:
  "push_bit 16 (ucast (d :: 16 word) :: 32 word) AND (ucast (v :: 16 word) :: 32 word) = 0"
  by (rule bit_word_eqI) (auto simp: bit_simps dest: bit_imp_le_length)

lemma make_code_plus:
  "make_code d v = push_bit 16 (ucast d :: 32 word) + (ucast v :: 32 word)"
  unfolding make_code_def
  by (rule disjunctive_add_eq_or [symmetric]) (rule make_code_disjoint)

lemma make_code_unat:
  "unat (make_code d v) = unat d * 65536 + unat v"
proof -
  have a: "unat d < 65536" using unsigned_less [of d, where 'a = nat] by simp
  have b: "unat v < 65536" using unsigned_less [of v, where 'a = nat] by simp
  have c: "unat (ucast d :: 32 word) = unat d" "unat (ucast v :: 32 word) = unat v"
    using a b by (simp_all add: unsigned_ucast_eq take_bit_nat_eq_self)
  have "unat (make_code d v) = (unat d * 65536 + unat v) mod 2 ^ 32"
    unfolding make_code_plus
    by (simp add: unat_word_ariths push_bit_eq_mult c mod_simps mult.commute)
  also have "\<dots> = unat d * 65536 + unat v" using a b by simp
  finally show ?thesis .
qed

lemma make_code_high: "ucast (drop_bit 16 (make_code d v)) = d"
  unfolding make_code_def
  by (rule bit_word_eqI) (auto simp: bit_simps dest: bit_imp_le_length)

lemma make_code_low: "ucast (make_code d v) = v"
  unfolding make_code_def
  by (rule bit_word_eqI) (auto simp: bit_simps dest: bit_imp_le_length)

lemma make_code_example: "make_code 0xAAAA 0x00FF = 0xAAAA00FF"
  by (simp add: make_code_def)

text \<open>
  Claim C9. For all 16-bit domain ids \<open>d\<close> and 16-bit values \<open>v\<close>, \<open>make_code d v\<close> is the
  32-bit value \<open>(d << 16) | v\<close>: as a number it is \<open>d * 2^16 + v\<close>, its upper half is \<open>d\<close>
  and its lower half is \<open>v\<close>, and \<open>d = 0xAAAA\<close>, \<open>v = 0x00FF\<close> give \<open>0xAAAA00FF\<close>. It is a
  total function of its two arguments alone. The helper \<open>code\<close> of a conforming enum is
  \<open>make_code\<close> of the domain id and the 16-bit value of the enumerator; for the Core
  domain the id is \<open>0x0001\<close>.
\<close>

theorem make_code_packing:
  "make_code d v = push_bit 16 (ucast d) OR ucast v
   \<and> unat (make_code d v) = unat d * 2 ^ 16 + unat v
   \<and> ucast (drop_bit 16 (make_code d v)) = d
   \<and> ucast (make_code d v) = v
   \<and> make_code 0xAAAA 0x00FF = 0xAAAA00FF
   \<and> code_of tr e = make_code (domain_id tr) (to_u16 tr e)
   \<and> code_of CoreErr_traits c = make_code 0x0001 c"
  using make_code_unat [of d v] make_code_high [of d v] make_code_low [of d v] make_code_example
  by (simp add: make_code_def code_of_def CoreErr_traits_def)

section \<open>Metadata of the Core domain\<close>

lemma switch_default:
  assumes "v < CoreErr_Min \<or> CoreErr_Max < v"
  shows "get_core_error_info_data v = empty_info"
proof -
  from assms have "v \<noteq> 1" "v \<noteq> 2" "v \<noteq> 3" "v \<noteq> 4" "v \<noteq> 5"
    by (auto simp: CoreErr_defs)
  then show ?thesis by (simp add: get_core_error_info_data_def CoreErr_defs)
qed

text \<open>
  Claim C7. For every 16-bit value \<open>v\<close> outside the declared range \<open>[_Min, _Max]\<close> of
  \<open>CoreErr\<close>, the metadata of \<open>static_cast<CoreErr>(v)\<close> is: default severity \<open>Trace\<close>,
  and the empty string for the key and for both message templates. The lookup is a total
  function: the range check of \<open>get_core_info\<close> answers, and the \<open>default\<close> branch of the
  table would answer the same.
\<close>

theorem core_lookup_out_of_range:
  assumes "v < CoreErr_Min \<or> CoreErr_Max < v"
  shows "default_severity CoreErr_traits v = Trace
    \<and> key CoreErr_traits v = []
    \<and> enUS CoreErr_traits v = []
    \<and> ptBR CoreErr_traits v = []
    \<and> get_core_info v = empty_info
    \<and> get_core_error_info_data v = empty_info"
proof -
  from assms have "get_core_info v = empty_info" by (auto simp: get_core_info_def)
  with switch_default [OF assms] show ?thesis
    by (simp add: CoreErr_traits_def empty_info_def)
qed

theorem core_lookup_out_of_range_witness:
  "((9999 :: CoreErr) < CoreErr_Min \<or> CoreErr_Max < (9999 :: CoreErr))
   \<and> default_severity CoreErr_traits 9999 = Trace
   \<and> key CoreErr_traits 9999 = []
   \<and> enUS CoreErr_traits 9999 = []
   \<and> ptBR CoreErr_traits 9999 = []
   \<and> default_severity CoreErr_traits 0 = Trace
   \<and> key CoreErr_traits 0 = []"
proof -
  have h: "(9999 :: CoreErr) < CoreErr_Min \<or> CoreErr_Max < (9999 :: CoreErr)"
    by (simp add: CoreErr_defs)
  have h0: "(0 :: CoreErr) < CoreErr_Min \<or> CoreErr_Max < (0 :: CoreErr)"
    by (simp add: CoreErr_defs)
  show ?thesis
    using h core_lookup_out_of_range [OF h] core_lookup_out_of_range [OF h0] by simp
qed

section \<open>StatusOr\<close>

text \<open>
  Claim C8. For every value \<open>v\<close>, a \<open>StatusOr\<close> constructed from \<open>v\<close> has \<open>ok()\<close> true and
  its \<open>value()\<close> returns \<open>v\<close>. A \<open>StatusOr\<close> constructed from a failure \<open>Status\<close> (one built
  from an error record) has \<open>ok()\<close> false, and its \<open>value()\<close> throws
  \<open>std::bad_optional_access\<close>, the "no value present" condition: it returns no value at
  all, so no default-initialised one.
\<close>

theorem statusor_round_trip:
  "StatusOr_ok (StatusOr_of_value now t v)
   \<and> StatusOr_value (StatusOr_of_value now t v) = Inr v
   \<and> \<not> Status_ok (Status_of_record r)
   \<and> \<not> StatusOr_ok (StatusOr_of_status (Status_of_record r) :: 'a StatusOr)
   \<and> StatusOr_value (StatusOr_of_status (Status_of_record r) :: 'a StatusOr)
        = Inl bad_optional_access"
  by (simp add: StatusOr_ok_def StatusOr_value_def StatusOr_of_value_def
      StatusOr_of_status_def Status_ok_def Status_OK_def Status_of_record_def)

section \<open>The configuration is not changed by logging\<close>

lemma Config_read_cong:
  "cfg_heap s' = cfg_heap s \<Longrightarrow> cfg_ptr s' = cfg_ptr s \<Longrightarrow> Config_read s' = Config_read s"
  by (simp add: Config_read_def deref_def split: option.splits)

lemma Config_read_tl_buf [simp]: "Config_read (s\<lparr>tl_buf := b\<rparr>) = Config_read s"
  by (rule Config_read_cong) simp_all

lemma Config_read_ext [simp]: "Config_read (s\<lparr>ext := x\<rparr>) = Config_read s"
  by (rule Config_read_cong) simp_all

lemma Config_read_ThreadLocalBufferLogger_log [simp]:
  "Config_read (ThreadLocalBufferLogger_log t r s) = Config_read s"
  by (simp add: ThreadLocalBufferLogger_log_def Let_def split: option.splits)

lemma ThreadLocalBufferLogger_flush_simps [simp]:
  "fst (ThreadLocalBufferLogger_flush t s) = tl_buf s t"
  "tl_buf (snd (ThreadLocalBufferLogger_flush t s)) t' = (if t' = t then [] else tl_buf s t')"
  "Config_read (snd (ThreadLocalBufferLogger_flush t s)) = Config_read s"
  by (simp_all add: ThreadLocalBufferLogger_flush_def)

lemma logger_log_cfg [simp]:
  "cfg_heap (logger_log lg t r s) = cfg_heap s"
  "cfg_ptr (logger_log lg t r s) = cfg_ptr s"
  "cfg_refs (logger_log lg t r s) = cfg_refs s"
  by (cases lg; simp add: ThreadLocalBufferLogger_log_def Let_def split: option.splits)+

lemma logger_flush_cfg [simp]:
  "cfg_heap (snd (logger_flush lg t s)) = cfg_heap s"
  "cfg_ptr (snd (logger_flush lg t s)) = cfg_ptr s"
  "cfg_refs (snd (logger_flush lg t s)) = cfg_refs s"
  by (cases lg; simp add: ThreadLocalBufferLogger_flush_def)+

lemma ErrorManager_log_cfg [simp]:
  "cfg_heap (ErrorManager_log t r s) = cfg_heap s"
  "cfg_ptr (ErrorManager_log t r s) = cfg_ptr s"
  "cfg_refs (ErrorManager_log t r s) = cfg_refs s"
  by (simp_all add: ErrorManager_log_def split: option.splits)

lemma ErrorManager_flush_cfg [simp]:
  "cfg_heap (snd (ErrorManager_flush t s)) = cfg_heap s"
  "cfg_ptr (snd (ErrorManager_flush t s)) = cfg_ptr s"
  "cfg_refs (snd (ErrorManager_flush t s)) = cfg_refs s"
  by (simp_all add: ErrorManager_flush_def split: option.splits)

lemma Config_read_ErrorManager_log [simp]:
  "Config_read (ErrorManager_log t r s) = Config_read s"
  by (rule Config_read_cong) simp_all

lemma Config_read_ErrorManager_flush [simp]:
  "Config_read (snd (ErrorManager_flush t s)) = Config_read s"
  by (rule Config_read_cong) simp_all

lemma Config_read_log_error [simp]:
  "Config_read (log_error tr t now e kv s) = Config_read s"
  by (cases "Config_read s") (simp_all add: log_error_def Let_def)

section \<open>The capacity of the thread-local buffer\<close>

lemma ThreadLocalBufferLogger_log_buf:
  assumes "Config_read s = Some cfg"
  shows "tl_buf (ThreadLocalBufferLogger_log t r s) t' =
          (if t' = t \<and> length (tl_buf s t) < thread_buffer_cap cfg then tl_buf s t @ [r]
           else tl_buf s t')"
  using assms by (simp add: ThreadLocalBufferLogger_log_def Let_def)

lemma ThreadLocalBufferLogger_log_full:
  assumes "Config_read s = Some cfg" and "thread_buffer_cap cfg \<le> length (tl_buf s t)"
  shows "ThreadLocalBufferLogger_log t r s = s"
  using assms by (simp add: ThreadLocalBufferLogger_log_def Let_def)

lemma log_all_Config_read [simp]: "Config_read (log_all t recs s) = Config_read s"
  unfolding log_all_def by (induction recs arbitrary: s) simp_all

lemma log_all_buf:
  assumes "Config_read s = Some cfg"
  shows "tl_buf (log_all t recs s) t =
           tl_buf s t @ take (thread_buffer_cap cfg - length (tl_buf s t)) recs"
  using assms
proof (induction recs arbitrary: s)
  case Nil
  then show ?case by (simp add: log_all_def)
next
  case (Cons r recs)
  let ?s1 = "ThreadLocalBufferLogger_log t r s"
  have c: "Config_read ?s1 = Some cfg" using Cons.prems by simp
  have "tl_buf (log_all t (r # recs) s) t = tl_buf (log_all t recs ?s1) t"
    by (simp add: log_all_def)
  also have "\<dots> = tl_buf ?s1 t @ take (thread_buffer_cap cfg - length (tl_buf ?s1 t)) recs"
    by (rule Cons.IH [OF c])
  also have "\<dots> = tl_buf s t @ take (thread_buffer_cap cfg - length (tl_buf s t)) (r # recs)"
  proof (cases "length (tl_buf s t) < thread_buffer_cap cfg")
    case True
    then obtain m where m: "thread_buffer_cap cfg - length (tl_buf s t) = Suc m"
      by (metis Suc_diff_Suc)
    then have m': "thread_buffer_cap cfg - Suc (length (tl_buf s t)) = m" by arith
    from True m m' show ?thesis
      by (simp add: ThreadLocalBufferLogger_log_buf [OF Cons.prems])
  next
    case False
    then show ?thesis by (simp add: ThreadLocalBufferLogger_log_buf [OF Cons.prems])
  qed
  finally show ?case .
qed

lemma log_all_other:
  assumes "u \<noteq> t"
  shows "tl_buf (log_all t recs s) u = tl_buf s u"
  unfolding log_all_def using assms
proof (induction recs arbitrary: s)
  case Nil
  then show ?case by simp
next
  case (Cons r recs)
  then show ?case
    by (simp add: ThreadLocalBufferLogger_log_def Let_def split: option.splits)
qed

lemma run_ops_Config_read [simp]: "Config_read (snd (run_ops ops s)) = Config_read s"
  by (induction ops s rule: run_ops.induct) simp_all

lemma run_ops_exactly_once:
  assumes "Config_read s = Some cfg"
  shows "flushed_by t (fst (run_ops ops s)) @ tl_buf (snd (run_ops ops s)) t
           = tl_buf s t @ spec_accepted (thread_buffer_cap cfg) t (length (tl_buf s t)) ops"
  using assms
proof (induction ops s rule: run_ops.induct)
  case (1 s)
  then show ?case by (simp add: flushed_by_def)
next
  case (2 t' r ops s)
  have c: "Config_read (ThreadLocalBufferLogger_log t' r s) = Some cfg" using "2.prems" by simp
  show ?case
    using "2.IH" [OF c] by (simp add: ThreadLocalBufferLogger_log_buf [OF "2.prems"])
next
  case (3 t' ops s)
  have c: "Config_read (snd (ThreadLocalBufferLogger_flush t' s)) = Some cfg" using "3.prems" by simp
  show ?case
  proof (cases "t' = t")
    case True
    with "3.IH" [OF c] show ?thesis by (simp add: flushed_by_def)
  next
    case False
    with "3.IH" [OF c] show ?thesis by (simp add: flushed_by_def)
  qed
qed

lemma no_flush_flushed_by:
  assumes "(t, Flush) \<notin> set ops"
  shows "flushed_by t (fst (run_ops ops s)) = []"
  using assms
  by (induction ops s rule: run_ops.induct) (auto simp: flushed_by_def)

lemma no_flush_spec_accepted:
  assumes "(t, Flush) \<notin> set ops"
  shows "spec_accepted c t n ops = take (c - n) (logged_by t ops)"
  using assms
proof (induction c t n ops rule: spec_accepted.induct)
  case (1 c t n)
  then show ?case by simp
next
  case (2 c t n t' r ops)
  show ?case
  proof (cases "t' = t \<and> n < c")
    case True
    then obtain m where m: "c - n = Suc m" by (metis Suc_diff_Suc)
    then have "c - Suc n = m" by arith
    with True m 2 show ?thesis by simp
  next
    case False
    with 2 show ?thesis by auto
  qed
next
  case (3 c t n t' ops)
  then show ?case by auto
qed

section \<open>Snapshots of the configuration\<close>

lemma map_of_filter_key:
  "map_of (filter (\<lambda>(a, c). P a) h) k = (if P k then map_of h k else None)"
  by (induction h) auto

lemma fresh_addr_above: "(a, c) \<in> set h \<Longrightarrow> a < fresh_addr h"
  unfolding fresh_addr_def by (induction h) auto

lemma fresh_addr_new:
  assumes "map_of h a = Some c"
  shows "fresh_addr h \<noteq> a"
  using fresh_addr_above [OF map_of_SomeD [OF assms]] by simp

lemma deref_reclaim:
  "deref (reclaim s) a = (if referenced s a then deref s a else None)"
  by (simp add: deref_def reclaim_def map_of_filter_key)

lemma reclaim_fields [simp]:
  "cfg_refs (reclaim s) = cfg_refs s"
  "cfg_ptr (reclaim s) = cfg_ptr s"
  "tl_buf (reclaim s) = tl_buf s"
  "ext (reclaim s) = ext s"
  by (simp_all add: reclaim_def)

lemma Config_set_fields [simp]:
  "cfg_refs (Config_set cfg s) = cfg_refs s"
  "cfg_ptr (Config_set cfg s) = Some (fresh_addr (cfg_heap s))"
  "tl_buf (Config_set cfg s) = tl_buf s"
  "ext (Config_set cfg s) = ext s"
  by (simp_all add: Config_set_def Let_def)

lemma Config_set_keeps:
  assumes "holds s t a" and "deref s a = Some c"
  shows "holds (Config_set cfg s) t a \<and> deref (Config_set cfg s) a = Some c"
proof -
  let ?sp = "fresh_addr (cfg_heap s)"
  let ?s1 = "s\<lparr>cfg_heap := (?sp, cfg) # cfg_heap s, cfg_ptr := Some ?sp\<rparr>"
  have ne: "?sp \<noteq> a" using assms(2) by (simp add: deref_def fresh_addr_new)
  have r: "referenced ?s1 a"
    using assms(1) by (force simp: referenced_def holds_def)
  have "deref ?s1 a = Some c" using assms(2) ne by (simp add: deref_def)
  with r have "deref (reclaim ?s1) a = Some c" by (simp add: deref_reclaim)
  moreover have "holds (reclaim ?s1) t a" using assms(1) by (simp add: holds_def)
  ultimately show ?thesis by (simp add: Config_set_def Let_def)
qed

lemma Config_set_current: "Config_read (Config_set cfg s) = Some cfg"
proof -
  let ?sp = "fresh_addr (cfg_heap s)"
  let ?s1 = "s\<lparr>cfg_heap := (?sp, cfg) # cfg_heap s, cfg_ptr := Some ?sp\<rparr>"
  have "referenced ?s1 ?sp" by (simp add: referenced_def)
  moreover have "deref ?s1 ?sp = Some cfg" by (simp add: deref_def)
  ultimately have "deref (reclaim ?s1) ?sp = Some cfg" by (simp add: deref_reclaim)
  then show ?thesis by (simp add: Config_set_def Let_def Config_read_def)
qed

text \<open>
  A snapshot taken and released within one call leaves the state as it was, and what the
  call reads through it is \<open>Config_read\<close> (in a state without unreferenced objects, which
  is what \<open>reclaim\<close> leaves).
\<close>

lemma temporary_snapshot:
  assumes "Config_get t s = (Some a, s1)"
    and "\<forall>(b, c) \<in> set (cfg_heap s). referenced s b"
  shows "deref s1 a = Config_read s \<and> snapshot_release t a s1 = s"
proof -
  from assms(1) have p: "cfg_ptr s = Some a" and s1: "s1 = s\<lparr>cfg_refs := (t, a) # cfg_refs s\<rparr>"
    by (auto simp: Config_get_def split: option.splits)
  have "filter (\<lambda>(b, c). referenced s b) (cfg_heap s) = cfg_heap s"
    using assms(2) by (intro filter_True) auto
  then have "reclaim s = s" by (simp add: reclaim_def)
  then have "snapshot_release t a s1 = s" by (simp add: snapshot_release_def s1)
  moreover have "deref s1 a = Config_read s" by (simp add: s1 deref_def Config_read_def p)
  ultimately show ?thesis by simp
qed

lemma step_keeps:
  assumes "holds s t a" and "deref s a = Some c" and "\<not> releases t op"
  shows "holds (step op s) t a \<and> deref (step op s) a = Some c"
proof (cases op)
  case (OpGet t')
  with assms show ?thesis
    by (simp add: Config_get_def holds_def deref_def split: option.splits)
next
  case (OpSet cfg)
  with Config_set_keeps [OF assms(1,2)] show ?thesis by simp
next
  case (OpRelease t' a')
  with assms(3) have ne: "t' \<noteq> t" by simp
  let ?s1 = "s\<lparr>cfg_refs := remove1 (t', a') (cfg_refs s)\<rparr>"
  have h: "(t, a) \<in> set (cfg_refs ?s1)" using assms(1) ne by (simp add: holds_def)
  then have r: "referenced ?s1 a" by (force simp: referenced_def)
  have "deref ?s1 a = Some c" using assms(2) by (simp add: deref_def)
  with r have "deref (reclaim ?s1) a = Some c" by (simp add: deref_reclaim)
  with h OpRelease show ?thesis by (simp add: snapshot_release_def holds_def)
next
  case (OpLog t' r)
  with assms show ?thesis by (simp add: holds_def deref_def)
next
  case (OpFlush t')
  with assms show ?thesis by (simp add: holds_def deref_def)
qed

lemma run_keeps:
  assumes "holds s t a" and "deref s a = Some c" and "\<forall>op \<in> set ops. \<not> releases t op"
  shows "holds (run ops s) t a \<and> deref (run ops s) a = Some c"
  using assms
proof (induction ops arbitrary: s)
  case Nil
  then show ?case by (simp add: run_def)
next
  case (Cons op ops)
  from Cons.prems have k: "holds (step op s) t a \<and> deref (step op s) a = Some c"
    by (intro step_keeps) auto
  from Cons.prems have "\<forall>op \<in> set ops. \<not> releases t op" by simp
  with Cons.IH [of "step op s"] k show ?case by (simp add: run_def)
qed

text \<open>
  Claim C6. A snapshot that \<open>Config::get()\<close> returned is never changed afterwards. Thread
  \<open>t\<close> takes a snapshot \<open>p\<close> of the current configuration \<open>c\<close>. Then \<open>p\<close> is the address of
  the current object, and after any interleaving \<open>ops\<close> of calls by any threads
  (\<open>Config::set\<close>, \<open>Config::get\<close>, releases of other snapshots, logging and flushing) in
  which \<open>t\<close> does not give its snapshot up, the object at \<open>p\<close> is alive and still is \<open>c\<close>:
  every field the holder reads (language, policy, min_severity, thread_buffer_cap,
  logger) has its value from before. A further \<open>Config::set(cfg')\<close> puts \<open>cfg'\<close> in a new
  object at another address and makes \<open>ptr_\<close> point to it, so that others observe \<open>cfg'\<close>
  while the holder still observes \<open>c\<close>. (Each call is one step: the mutex makes the copy
  and the replacement of the pointer atomic.)
\<close>

theorem snapshot_stable:
  assumes "Config_read s = Some c" and "Config_get t s = (p, s1)"
    and "\<forall>op \<in> set ops. \<not> releases t op"
  shows "\<exists>a. p = Some a \<and> cfg_ptr s = Some a \<and> holds s1 t a \<and> deref s1 a = Some c
          \<and> holds (run ops s1) t a
          \<and> deref (run ops s1) a = Some c
          \<and> deref (Config_set cfg' (run ops s1)) a = Some c
          \<and> Config_read (Config_set cfg' (run ops s1)) = Some cfg'
          \<and> cfg_ptr (Config_set cfg' (run ops s1)) \<noteq> Some a"
proof -
  from assms(1) obtain a where a: "cfg_ptr s = Some a" "deref s a = Some c"
    by (auto simp: Config_read_def split: option.splits)
  with assms(2) have p: "p = Some a" and s1: "s1 = s\<lparr>cfg_refs := (t, a) # cfg_refs s\<rparr>"
    by (auto simp: Config_get_def)
  have h1: "holds s1 t a" by (simp add: s1 holds_def)
  have d1: "deref s1 a = Some c" using a(2) by (simp add: s1 deref_def)
  note k = run_keeps [OF h1 d1 assms(3)]
  from k have k1: "holds (run ops s1) t a" and k2: "deref (run ops s1) a = Some c" by simp_all
  have "fresh_addr (cfg_heap (run ops s1)) \<noteq> a"
    using k2 by (simp add: deref_def fresh_addr_new)
  then have n: "cfg_ptr (Config_set cfg' (run ops s1)) \<noteq> Some a" by simp
  from p a(1) h1 d1 k Config_set_keeps [OF k1 k2, of cfg'] Config_set_current n
  show ?thesis by blast
qed

theorem snapshot_stable_witness:
  "Config_read (initial_state ()) = Some default_config
   \<and> fst (Config_get 7 (initial_state ())) = Some 1
   \<and> deref (run [OpSet cfg_cap2, OpGet 8, OpLog 8 (rec_n 1), OpRelease 8 2,
                  OpSet cfg_min_fatal, OpFlush 8]
              (snd (Config_get 7 (initial_state ())))) 1 = Some default_config
   \<and> Config_read (run [OpSet cfg_cap2, OpGet 8, OpLog 8 (rec_n 1), OpRelease 8 2,
                        OpSet cfg_min_fatal, OpFlush 8]
                    (snd (Config_get 7 (initial_state ())))) = Some cfg_min_fatal
   \<and> Config_read (Config_set cfg_status
        (run [OpSet cfg_cap2, OpGet 8, OpLog 8 (rec_n 1), OpRelease 8 2,
              OpSet cfg_min_fatal, OpFlush 8]
           (snd (Config_get 7 (initial_state ()))))) = Some cfg_status"
proof -
  let ?ops = "[OpSet cfg_cap2, OpGet 8, OpLog 8 (rec_n 1), OpRelease 8 2,
               OpSet cfg_min_fatal, OpFlush 8]"
  have h1: "Config_read (initial_state ()) = Some (default_config :: unit ErrorConfig)"
    by (simp add: Config_read_def initial_state_def deref_def)
  have h2: "Config_get 7 (initial_state ())
              = (fst (Config_get 7 (initial_state ())), snd (Config_get 7 (initial_state ())))"
    by simp
  have h3: "\<forall>op \<in> set ?ops. \<not> releases 7 op" by simp
  have p: "fst (Config_get 7 (initial_state ())) = Some 1"
    by (simp add: Config_get_def initial_state_def)
  have c: "Config_read (run ?ops (snd (Config_get 7 (initial_state ())))) = Some cfg_min_fatal"
    by (simp add: run_def Config_set_current)
  from snapshot_stable [OF h1 h2 h3, of cfg_status] p h1 c show ?thesis by auto
qed

section \<open>Capacity and flushing of the thread-local logger\<close>

text \<open>
  Claim C4. Thread \<open>t\<close>, whose buffer is empty (as after a flush), logs the records \<open>recs\<close>
  through \<open>ThreadLocalBufferLogger::log\<close> under a configuration of capacity \<open>c\<close>. The
  buffer then holds exactly the first \<open>min (length recs) c\<close> records, in the order of
  logging, and a flush returns them; a record logged while the buffer holds \<open>c\<close> entries
  or more leaves the whole state as it was (it is dropped, and the older ones stay); the
  buffers of the other threads are not touched. The same holds when the calls of \<open>t\<close> are
  interleaved with logs and flushes of other threads.
\<close>

theorem capacity_drop_newest:
  assumes "Config_read s = Some cfg" and "tl_buf s t = []"
  shows "tl_buf (log_all t recs s) t = take (thread_buffer_cap cfg) recs
    \<and> length (tl_buf (log_all t recs s) t) = min (length recs) (thread_buffer_cap cfg)
    \<and> fst (ThreadLocalBufferLogger_flush t (log_all t recs s)) = take (thread_buffer_cap cfg) recs
    \<and> (thread_buffer_cap cfg \<le> length (tl_buf (log_all t recs s) t) \<longrightarrow>
         ThreadLocalBufferLogger_log t r (log_all t recs s) = log_all t recs s)
    \<and> (u \<noteq> t \<longrightarrow> tl_buf (log_all t recs s) u = tl_buf s u)
    \<and> ((t, Flush) \<notin> set ops \<longrightarrow>
         tl_buf (snd (run_ops ops s)) t = take (thread_buffer_cap cfg) (logged_by t ops))"
proof -
  have b: "tl_buf (log_all t recs s) t = take (thread_buffer_cap cfg) recs"
    using log_all_buf [OF assms(1), of t recs] assms(2) by simp
  have c: "Config_read (log_all t recs s) = Some cfg" using assms(1) by simp
  have d: "ThreadLocalBufferLogger_log t r (log_all t recs s) = log_all t recs s"
    if "thread_buffer_cap cfg \<le> length (tl_buf (log_all t recs s) t)"
    using ThreadLocalBufferLogger_log_full [OF c that] .
  have e: "tl_buf (snd (run_ops ops s)) t = take (thread_buffer_cap cfg) (logged_by t ops)"
    if "(t, Flush) \<notin> set ops"
    using run_ops_exactly_once [OF assms(1), of t ops] assms(2)
      no_flush_flushed_by [OF that, of s] no_flush_spec_accepted [OF that]
    by simp
  from b d e show ?thesis
    by (simp add: log_all_other min.commute)
qed

theorem capacity_drop_newest_witness:
  "Config_read (Config_set cfg_cap2 (initial_state ())) = Some cfg_cap2
   \<and> tl_buf (Config_set cfg_cap2 (initial_state ())) 0 = []
   \<and> thread_buffer_cap cfg_cap2 = 2
   \<and> fst (ThreadLocalBufferLogger_flush 0 (log_all 0 [rec_n 1, rec_n 2, rec_n 3]
                          (Config_set cfg_cap2 (initial_state ())))) = [rec_n 1, rec_n 2]
   \<and> ThreadLocalBufferLogger_log 0 (rec_n 4) (log_all 0 [rec_n 1, rec_n 2, rec_n 3]
                            (Config_set cfg_cap2 (initial_state ())))
       = log_all 0 [rec_n 1, rec_n 2, rec_n 3] (Config_set cfg_cap2 (initial_state ()))
   \<and> tl_buf (log_all 0 [rec_n 1, rec_n 2, rec_n 3] (Config_set cfg_cap2 (initial_state ()))) 5
       = []
   \<and> tl_buf (snd (run_ops [(0, Log (rec_n 1)), (5, Log (rec_n 9)), (0, Log (rec_n 2)),
                            (5, Flush), (0, Log (rec_n 3))]
                     (Config_set cfg_cap2 (initial_state ())))) 0 = [rec_n 1, rec_n 2]"
proof -
  let ?s = "Config_set cfg_cap2 (initial_state ())"
  have h1: "Config_read ?s = Some cfg_cap2" by (rule Config_set_current)
  have h2: "tl_buf ?s 0 = []" by (simp add: initial_state_def)
  have c: "thread_buffer_cap cfg_cap2 = 2" by (simp add: cfg_cap2_def default_config_def)
  have n: "(5 :: nat) \<noteq> 0" by simp
  have f: "(0, Flush) \<notin> set [(0, Log (rec_n 1)), (5, Log (rec_n 9)), (0, Log (rec_n 2)),
                            (5 :: nat, Flush), (0, Log (rec_n 3))]" by simp
  from capacity_drop_newest [OF h1 h2, of "[rec_n 1, rec_n 2, rec_n 3]" "rec_n 4" 5
      "[(0, Log (rec_n 1)), (5, Log (rec_n 9)), (0, Log (rec_n 2)), (5, Flush), (0, Log (rec_n 3))]"]
    h1 h2 c n f
  show ?thesis by (simp add: initial_state_def)
qed

text \<open>
  Claim C5. \<open>ThreadLocalBufferLogger::flush\<close> on thread \<open>t\<close> returns the buffer of \<open>t\<close> as
  it is, in order, and leaves it empty, without touching the buffer of any other thread;
  a flush right after a flush returns the empty sequence; what \<open>t\<close> logs after a flush
  comes back from its next flush, up to the capacity. Over any interleaving of logs and
  flushes by any threads, the outputs of the flushes of \<open>t\<close>, one after the other and
  followed by what is left in the buffer of \<open>t\<close>, are the initial buffer followed by the
  records accepted from \<open>t\<close>, in order: each accepted record is returned by exactly one
  flush, none twice, none lost, and none of another thread.
\<close>

theorem flush_exactly_once:
  "fst (ThreadLocalBufferLogger_flush t s) = tl_buf s t
   \<and> tl_buf (snd (ThreadLocalBufferLogger_flush t s)) t = []
   \<and> fst (ThreadLocalBufferLogger_flush t (snd (ThreadLocalBufferLogger_flush t s))) = []
   \<and> (u \<noteq> t \<longrightarrow> tl_buf (snd (ThreadLocalBufferLogger_flush t s)) u = tl_buf s u)
   \<and> (Config_read s = Some cfg \<longrightarrow>
        fst (ThreadLocalBufferLogger_flush t (log_all t recs (snd (ThreadLocalBufferLogger_flush t s))))
          = take (thread_buffer_cap cfg) recs)
   \<and> (Config_read s = Some cfg \<longrightarrow>
        flushed_by t (fst (run_ops ops s)) @ tl_buf (snd (run_ops ops s)) t
          = tl_buf s t @ spec_accepted (thread_buffer_cap cfg) t (length (tl_buf s t)) ops)"
proof -
  have a: "fst (ThreadLocalBufferLogger_flush t
                  (log_all t recs (snd (ThreadLocalBufferLogger_flush t s))))
          = take (thread_buffer_cap cfg) recs" if c: "Config_read s = Some cfg"
  proof -
    have c': "Config_read (snd (ThreadLocalBufferLogger_flush t s)) = Some cfg" using c by simp
    show ?thesis using log_all_buf [OF c', of t recs] by simp
  qed
  from a run_ops_exactly_once [of s cfg t ops] show ?thesis by simp
qed

theorem flush_exactly_once_witness:
  "Config_read (Config_set cfg_cap2 (initial_state ())) = Some cfg_cap2
   \<and> fst (ThreadLocalBufferLogger_flush 0 (log_all 0 [rec_n 1, rec_n 2, rec_n 3]
            (snd (ThreadLocalBufferLogger_flush 0 (Config_set cfg_cap2 (initial_state ()))))))
       = [rec_n 1, rec_n 2]
   \<and> fst (ThreadLocalBufferLogger_flush 0 (snd (ThreadLocalBufferLogger_flush 0 (log_all 0 [rec_n 1]
            (Config_set cfg_cap2 (initial_state ())))))) = []
   \<and> tl_buf (snd (ThreadLocalBufferLogger_flush 0
                    (log_all 5 [rec_n 1] (Config_set cfg_cap2 (initial_state ()))))) 5
       = tl_buf (log_all 5 [rec_n 1] (Config_set cfg_cap2 (initial_state ()))) 5
   \<and> flushed_by 0 (fst (run_ops
          [(0, Log (rec_n 1)), (5, Log (rec_n 9)), (0, Log (rec_n 2)), (0, Log (rec_n 3)),
           (0, Flush), (5, Flush), (0, Log (rec_n 4)), (0, Flush), (0, Flush)]
          (Config_set cfg_cap2 (initial_state ()))))
       @ tl_buf (snd (run_ops
          [(0, Log (rec_n 1)), (5, Log (rec_n 9)), (0, Log (rec_n 2)), (0, Log (rec_n 3)),
           (0, Flush), (5, Flush), (0, Log (rec_n 4)), (0, Flush), (0, Flush)]
          (Config_set cfg_cap2 (initial_state ())))) 0
       = [rec_n 1, rec_n 2, rec_n 4]"
proof -
  let ?s = "Config_set cfg_cap2 (initial_state ())"
  let ?ops = "[(0, Log (rec_n 1)), (5, Log (rec_n 9)), (0, Log (rec_n 2)), (0, Log (rec_n 3)),
           (0, Flush), (5, Flush), (0, Log (rec_n 4)), (0, Flush), (0, Flush)]"
  have h1: "Config_read ?s = Some cfg_cap2" by (rule Config_set_current)
  have c: "thread_buffer_cap cfg_cap2 = 2" by (simp add: cfg_cap2_def default_config_def)
  have b: "tl_buf ?s 0 = []" by (simp add: initial_state_def)
  have n: "(5 :: nat) \<noteq> 0" by simp
  from flush_exactly_once [of 0 ?s 5 cfg_cap2 "[rec_n 1, rec_n 2, rec_n 3]" ?ops]
    flush_exactly_once [of 0 "log_all 0 [rec_n 1] ?s"]
    flush_exactly_once [of 0 "log_all 5 [rec_n 1] ?s" 5]
    h1 c b n
  show ?thesis by simp
qed

section \<open>Rendering: the passes of the substitution\<close>

declare replace_loop.simps [simp del]

lemma replace_loop_None:
  "str_find out (token k) pos = None \<Longrightarrow> replace_loop k v out pos = out"
  by (subst replace_loop.simps) simp

lemma replace_loop_Some:
  "str_find out (token k) pos = Some p \<Longrightarrow>
     replace_loop k v out pos
       = replace_loop k v (str_replace out p (length (token k)) v) (p + length v)"
  by (subst replace_loop.simps) simp

lemma find_first_bound:
  "find_first tok s = Some i \<Longrightarrow> i + length tok \<le> length s"
proof (induction s arbitrary: i)
  case Nil
  then show ?case by (simp split: if_splits)
next
  case (Cons c cs)
  show ?case
  proof (cases "prefix tok (c # cs)")
    case True
    with Cons.prems have "i = 0" by simp
    with prefix_length_le [OF True] show ?thesis by simp
  next
    case False
    with Cons.prems obtain j where "find_first tok cs = Some j" "i = Suc j" by auto
    with Cons.IH show ?thesis by simp
  qed
qed

lemma find_first_None_iff: "find_first tok s = None \<longleftrightarrow> \<not> sublist tok s"
proof (induction s)
  case Nil
  then show ?case by simp
next
  case (Cons c cs)
  then show ?case by (simp add: sublist_Cons_right)
qed

lemma str_find_0 [simp]: "str_find out tok 0 = find_first tok out"
  by (cases "find_first tok out") (simp_all add: str_find_def)

lemma replace_loop_drop:
  "pos \<le> length out \<Longrightarrow>
     replace_loop k v out pos = take pos out @ replace_loop k v (drop pos out) 0"
proof (induction "length out - pos" arbitrary: out pos rule: less_induct)
  case less
  let ?tok = "token k"
  let ?d = "drop pos out"
  show ?case
  proof (cases "find_first ?tok ?d")
    case None
    then have "str_find out ?tok pos = None" using less.prems by (simp add: str_find_def)
    then have "replace_loop k v out pos = out" by (rule replace_loop_None)
    moreover have "replace_loop k v ?d 0 = ?d"
      by (rule replace_loop_None) (simp add: None)
    ultimately show ?thesis by simp
  next
    case (Some i)
    have n: "0 < length ?tok" by (simp add: token_def)
    have b: "i + length ?tok \<le> length out - pos"
      using find_first_bound [OF Some] by simp
    have sf1: "str_find out ?tok pos = Some (pos + i)"
      using less.prems Some by (simp add: str_find_def)
    have sf2: "str_find ?d ?tok 0 = Some i" using Some by simp
    let ?rest = "drop (pos + i + length ?tok) out"
    let ?out1 = "str_replace out (pos + i) (length ?tok) v"
    let ?d1 = "str_replace ?d i (length ?tok) v"
    have out1: "?out1 = (take (pos + i) out @ v) @ ?rest"
      by (simp add: str_replace_def)
    have d1: "?d1 = (take i ?d @ v) @ ?rest"
      by (simp add: str_replace_def ac_simps)
    have l1: "length (take (pos + i) out @ v) = pos + i + length v"
      using b less.prems by simp
    have l2: "length (take i ?d @ v) = i + length v"
      using b less.prems by simp
    have t1: "take (pos + i + length v) ?out1 = take (pos + i) out @ v"
      unfolding out1 using l1 by (metis append_eq_conv_conj)
    have r1: "drop (pos + i + length v) ?out1 = ?rest"
      unfolding out1 using l1 by (metis append_eq_conv_conj)
    have t2: "take (i + length v) ?d1 = take i ?d @ v"
      unfolding d1 using l2 by (metis append_eq_conv_conj)
    have r2: "drop (i + length v) ?d1 = ?rest"
      unfolding d1 using l2 by (metis append_eq_conv_conj)
    have len1: "length ?out1 = pos + i + length v + length ?rest"
      unfolding out1 using l1 by simp
    have len2: "length ?d1 = i + length v + length ?rest"
      unfolding d1 using l2 by simp
    have lr: "length ?rest = length out - (pos + i + length ?tok)" by simp
    have m1: "length ?out1 - (pos + i + length v) < length out - pos"
      using len1 lr b n less.prems by arith
    have m2: "length ?d1 - (i + length v) < length out - pos"
      using len2 lr b n less.prems by arith
    have "replace_loop k v out pos = replace_loop k v ?out1 (pos + i + length v)"
      using replace_loop_Some [OF sf1] by simp
    also have "\<dots> = take (pos + i + length v) ?out1
                       @ replace_loop k v (drop (pos + i + length v) ?out1) 0"
      by (rule less.hyps [OF m1]) (simp add: len1)
    also have "\<dots> = take (pos + i) out @ v @ replace_loop k v ?rest 0"
      by (simp only: t1 r1 append_assoc)
    finally have lhs: "replace_loop k v out pos
                         = take (pos + i) out @ v @ replace_loop k v ?rest 0" .
    have "replace_loop k v ?d 0 = replace_loop k v ?d1 (i + length v)"
      using replace_loop_Some [OF sf2] by simp
    also have "\<dots> = take (i + length v) ?d1 @ replace_loop k v (drop (i + length v) ?d1) 0"
      by (rule less.hyps [OF m2]) (simp add: len2)
    also have "\<dots> = take i ?d @ v @ replace_loop k v ?rest 0"
      by (simp only: t2 r2 append_assoc)
    finally have rhs: "replace_loop k v ?d 0 = take i ?d @ v @ replace_loop k v ?rest 0" .
    have "take pos out @ take i ?d = take (pos + i) out"
      by (simp add: take_add)
    with lhs rhs show ?thesis by (metis append_assoc)
  qed
qed

lemma replace_all_None:
  assumes "str_find out (token k) 0 = None"
  shows "replace_all k v out = out"
  unfolding replace_all_def using assms by (rule replace_loop_None)

lemma replace_all_Some:
  assumes "str_find out (token k) 0 = Some p"
  shows "replace_all k v out
           = take p out @ v @ replace_all k v (drop (p + length (token k)) out)"
proof -
  let ?tok = "token k"
  let ?rest = "drop (p + length ?tok) out"
  let ?out1 = "str_replace out p (length ?tok) v"
  from assms have ff: "find_first ?tok out = Some p" by simp
  have b: "p + length ?tok \<le> length out" by (rule find_first_bound [OF ff])
  have out1: "?out1 = (take p out @ v) @ ?rest" by (simp add: str_replace_def)
  have l1: "length (take p out @ v) = p + length v" using b by simp
  have t1: "take (p + length v) ?out1 = take p out @ v"
    unfolding out1 using l1 by (metis append_eq_conv_conj)
  have r1: "drop (p + length v) ?out1 = ?rest"
    unfolding out1 using l1 by (metis append_eq_conv_conj)
  have len1: "p + length v \<le> length ?out1" unfolding out1 using l1 by simp
  have "replace_all k v out = replace_loop k v ?out1 (p + length v)"
    unfolding replace_all_def by (rule replace_loop_Some [OF assms])
  also have "\<dots> = take (p + length v) ?out1 @ replace_loop k v (drop (p + length v) ?out1) 0"
    by (rule replace_loop_drop [OF len1])
  also have "\<dots> = take p out @ v @ replace_all k v ?rest"
    by (simp only: t1 r1 append_assoc replace_all_def)
  finally show ?thesis .
qed

lemma replace_all_absent:
  "\<not> sublist (token k) out \<Longrightarrow> replace_all k v out = out"
  by (rule replace_all_None) (simp add: find_first_None_iff)

lemma prefix_append_short:
  assumes "prefix tok (xs @ ys)" and "length tok \<le> length xs"
  shows "prefix tok xs"
  using assms by (auto simp: prefix_append)

lemma find_first_extend:
  "find_first tok xs = Some p \<Longrightarrow> find_first tok (xs @ ys) = Some p"
proof (induction xs arbitrary: p)
  case Nil
  then show ?case by (cases ys) (simp_all split: if_splits)
next
  case (Cons c cs)
  show ?case
  proof (cases "prefix tok (c # cs)")
    case True
    with Cons.prems have "p = 0" by simp
    moreover from True have "prefix tok ((c # cs) @ ys)" by (rule prefix_prefix)
    ultimately show ?thesis by simp
  next
    case False
    with Cons.prems obtain j where j: "find_first tok cs = Some j" "p = Suc j" by auto
    from find_first_bound [OF j(1)] have "length tok \<le> length (c # cs)" by simp
    with False have "\<not> prefix tok ((c # cs) @ ys)"
      using prefix_append_short by blast
    with Cons.IH [OF j(1)] j(2) show ?thesis by simp
  qed
qed

lemma token_no_span:
  assumes "CHR ''{'' \<notin> set k" and "xs \<noteq> []"
    and "prefix (token k) (xs @ CHR ''{'' # zs)"
  shows "prefix (token k) xs"
proof -
  from assms(3) have "prefix (token k) xs
      \<or> (\<exists>us. token k = xs @ us \<and> prefix us (CHR ''{'' # zs))"
    by (simp add: prefix_append)
  then show ?thesis
  proof
    assume "prefix (token k) xs"
    then show ?thesis .
  next
    assume "\<exists>us. token k = xs @ us \<and> prefix us (CHR ''{'' # zs)"
    then obtain us where us: "token k = xs @ us" "prefix us (CHR ''{'' # zs)" by blast
    show ?thesis
    proof (cases us)
      case Nil
      with us(1) show ?thesis by simp
    next
      case (Cons u us')
      with us(2) have "u = CHR ''{''" by simp
      with us(1) Cons have "token k = xs @ CHR ''{'' # us'" by simp
      with assms(2) obtain x xs' where "CHR ''{'' # k @ ''}'' = x # xs' @ CHR ''{'' # us'"
        by (cases xs) (auto simp: token_def)
      then have "CHR ''{'' \<in> set (k @ ''}'')" by auto
      with assms(1) show ?thesis by simp
    qed
  qed
qed

lemma find_first_skip_prefix:
  assumes "CHR ''{'' \<notin> set k" and "find_first (token k) xs = None"
  shows "find_first (token k) (xs @ CHR ''{'' # zs)
           = map_option (\<lambda>i. length xs + i) (find_first (token k) (CHR ''{'' # zs))"
  using assms(2)
proof (induction xs)
  case Nil
  show ?case by (cases "find_first (token k) (CHR ''{'' # zs)") simp_all
next
  case (Cons c cs)
  from Cons.prems have np: "\<not> prefix (token k) (c # cs)" and n: "find_first (token k) cs = None"
    by (auto split: if_splits)
  have "\<not> prefix (token k) ((c # cs) @ CHR ''{'' # zs)"
    using token_no_span [OF assms(1), of "c # cs" zs] np by blast
  then have "find_first (token k) ((c # cs) @ CHR ''{'' # zs)
               = map_option Suc (find_first (token k) (cs @ CHR ''{'' # zs))" by simp
  also have "\<dots> = map_option (\<lambda>i. length (c # cs) + i) (find_first (token k) (CHR ''{'' # zs))"
    by (simp add: Cons.IH [OF n] option.map_comp comp_def)
  finally show ?case .
qed

lemma find_first_skip_plain:
  assumes "CHR ''{'' \<notin> set ys"
  shows "find_first (token k) (ys @ post)
           = map_option (\<lambda>i. length ys + i) (find_first (token k) post)"
  using assms
proof (induction ys)
  case Nil
  show ?case by (cases "find_first (token k) post") simp_all
next
  case (Cons c cs)
  then have "c \<noteq> CHR ''{''" by auto
  then have "\<not> prefix (token k) ((c # cs) @ post)" by (simp add: token_def)
  then have "find_first (token k) ((c # cs) @ post)
               = map_option Suc (find_first (token k) (cs @ post))" by simp
  also have "\<dots> = map_option (\<lambda>i. length (c # cs) + i) (find_first (token k) post)"
    using Cons by (simp add: option.map_comp comp_def)
  finally show ?case .
qed

lemma key_prefix_eq:
  assumes "prefix (k @ ''}'') (k' @ CHR ''}'' # post)"
    and "CHR ''}'' \<notin> set k" and "CHR ''}'' \<notin> set k'"
  shows "k = k'"
  using assms
proof (induction k arbitrary: k')
  case Nil
  then show ?case by (cases k') auto
next
  case (Cons a as)
  then show ?case by (cases k') auto
qed

lemma token_not_prefix_other:
  assumes "brace_free k" and "brace_free k'" and "k \<noteq> k'"
  shows "\<not> prefix (token k) (token k' @ post)"
proof
  assume "prefix (token k) (token k' @ post)"
  then have "prefix (k @ ''}'') (k' @ CHR ''}'' # post)" by (simp add: token_def)
  with assms(1,2) have "k = k'" using key_prefix_eq unfolding brace_free_def by blast
  with assms(3) show False by simp
qed

lemma find_first_past_placeholder:
  assumes "brace_free k" and "brace_free k'" and "k \<noteq> k'"
    and "find_first (token k) pre = None"
  shows "find_first (token k) (pre @ token k' @ post)
           = map_option (\<lambda>i. length pre + length (token k') + i) (find_first (token k) post)"
proof -
  have o: "CHR ''{'' \<notin> set k" using assms(1) by (simp add: brace_free_def)
  have p: "CHR ''{'' \<notin> set (k' @ ''}'')" using assms(2) by (simp add: brace_free_def)
  have t: "token k' @ post = CHR ''{'' # (k' @ ''}'') @ post" by (simp add: token_def)
  have "find_first (token k) (token k' @ post)
          = map_option Suc (find_first (token k) ((k' @ ''}'') @ post))"
    using token_not_prefix_other [OF assms(1-3), of post] by (simp add: t)
  also have "\<dots> = map_option (\<lambda>i. length (token k') + i) (find_first (token k) post)"
    by (subst find_first_skip_plain [OF p], cases "find_first (token k) post")
       (simp_all add: token_def)
  finally have a: "find_first (token k) (token k' @ post)
          = map_option (\<lambda>i. length (token k') + i) (find_first (token k) post)" .
  have "find_first (token k) (pre @ token k' @ post)
          = map_option (\<lambda>i. length pre + i) (find_first (token k) (token k' @ post))"
    using find_first_skip_prefix [OF o assms(4), of "(k' @ ''}'') @ post"] by (simp add: t)
  also have "\<dots> = map_option (\<lambda>i. length pre + length (token k') + i)
                      (find_first (token k) post)"
    by (simp add: a option.map_comp comp_def add.assoc)
  finally show ?thesis .
qed

lemma replace_all_placeholder:
  assumes "brace_free k" and "brace_free k'" and "k \<noteq> k'"
  shows "replace_all k v (pre @ token k' @ post)
           = replace_all k v pre @ token k' @ replace_all k v post"
proof (induction "length pre" arbitrary: pre rule: less_induct)
  case less
  let ?tok = "token k"
  let ?ph = "token k'"
  show ?case
  proof (cases "find_first ?tok pre")
    case (Some p)
    have n: "0 < length ?tok" by (simp add: token_def)
    have b: "p + length ?tok \<le> length pre" by (rule find_first_bound [OF Some])
    let ?pre' = "drop (p + length ?tok) pre"
    have sh: "length ?pre' < length pre" using b n unfolding length_drop by arith
    have e: "find_first ?tok (pre @ ?ph @ post) = Some p"
      by (rule find_first_extend [OF Some])
    have "replace_all k v (pre @ ?ph @ post)
            = take p (pre @ ?ph @ post) @ v
                @ replace_all k v (drop (p + length ?tok) (pre @ ?ph @ post))"
      by (rule replace_all_Some) (simp add: e)
    also have "\<dots> = take p pre @ v @ replace_all k v (?pre' @ ?ph @ post)"
      using b by simp
    also have "\<dots> = take p pre @ v @ replace_all k v ?pre' @ ?ph @ replace_all k v post"
      by (simp only: less.hyps [OF sh])
    also have "\<dots> = replace_all k v pre @ ?ph @ replace_all k v post"
      using replace_all_Some [of pre k p v] Some by simp
    finally show ?thesis .
  next
    case None
    have pre: "replace_all k v pre = pre" by (rule replace_all_None) (simp add: None)
    have f: "find_first ?tok (pre @ ?ph @ post)
               = map_option (\<lambda>i. length pre + length ?ph + i) (find_first ?tok post)"
      by (rule find_first_past_placeholder [OF assms None])
    show ?thesis
    proof (cases "find_first ?tok post")
      case None
      with f have "replace_all k v (pre @ ?ph @ post) = pre @ ?ph @ post"
        by (intro replace_all_None) simp
      moreover have "replace_all k v post = post" by (rule replace_all_None) (simp add: None)
      ultimately show ?thesis by (simp add: pre)
    next
      case (Some q)
      let ?n = "length pre + length ?ph"
      from f Some have e: "find_first ?tok (pre @ ?ph @ post) = Some (?n + q)" by simp
      have "replace_all k v (pre @ ?ph @ post)
              = take (?n + q) (pre @ ?ph @ post) @ v
                  @ replace_all k v (drop (?n + q + length ?tok) (pre @ ?ph @ post))"
        by (rule replace_all_Some) (simp add: e)
      also have "\<dots> = pre @ ?ph @ take q post @ v
                          @ replace_all k v (drop (q + length ?tok) post)"
        by simp
      also have "\<dots> = pre @ ?ph @ replace_all k v post"
        using replace_all_Some [of post k q v] Some by simp
      finally show ?thesis by (simp add: pre)
    qed
  qed
qed

lemma render_placeholder:
  assumes "brace_free k'" and "\<forall>(k, v) \<in> set kv. brace_free k \<and> k \<noteq> k'"
  shows "render kv (pre @ token k' @ post) = render kv pre @ token k' @ render kv post"
  using assms(2)
proof (induction kv arbitrary: pre post)
  case Nil
  then show ?case by simp
next
  case (Cons a kv)
  obtain k v where a: "a = (k, v)" by (cases a)
  with Cons.prems have k: "brace_free k" "k \<noteq> k'" and r: "\<forall>(k, v) \<in> set kv. brace_free k \<and> k \<noteq> k'"
    by auto
  show ?case
    by (simp add: a replace_all_placeholder [OF k(1) assms(1) k(2)] Cons.IH [OF r])
qed

lemma render_absent:
  assumes "\<forall>(k, v) \<in> set kv. \<not> sublist (token k) tmpl"
  shows "render kv tmpl = tmpl"
  using assms
proof (induction kv)
  case Nil
  then show ?case by simp
next
  case (Cons a kv)
  obtain k v where a: "a = (k, v)" by (cases a)
  with Cons.prems have "\<not> sublist (token k) tmpl" by auto
  then have "replace_all k v tmpl = tmpl" by (rule replace_all_absent)
  with Cons a show ?case by simp
qed

text \<open>
  Claim C3, as the code has it. Rendering makes one pass for each pair, in the order of
  the list, and each pass works on the whole string that the passes before it left,
  values inserted by earlier pairs included. Within the pass of a pair \<open>(k, v)\<close>: when the
  token \<open>{k}\<close> does not occur, the string is unchanged (the pair is ignored); when its first
  occurrence is at \<open>p\<close>, the text before \<open>p\<close> stays, the token is replaced by \<open>v\<close>, and
  the pass goes on in the text after the token only, so the inserted value is not
  scanned again by this pass. The pass is a total function (its loop terminates for every
  key, value and string). If no token of the list occurs in the template, the template is
  returned as it is. A placeholder \<open>{k'}\<close> with a key without braces that is the key of
  no pair of the list (whose keys are without braces) is left verbatim, with the text
  before it and the text after it rendered on their own. The template
  \<open>"Invalid argument: {name}."\<close> with the pair \<open>(name, "x")\<close> renders
  \<open>"Invalid argument: x."\<close>.
\<close>

theorem render_pass_by_pass:
  "render [] tmpl = tmpl
   \<and> render ((k, v) # kv) tmpl = render kv (replace_all k v tmpl)
   \<and> (str_find out (token k) 0 = None \<longrightarrow> replace_all k v out = out)
   \<and> (str_find out (token k) 0 = Some p \<longrightarrow>
        replace_all k v out = take p out @ v @ replace_all k v (drop (p + length (token k)) out))
   \<and> (\<not> sublist (token k) out \<longrightarrow> replace_all k v out = out)
   \<and> ((\<forall>(k, v) \<in> set kv. \<not> sublist (token k) tmpl) \<longrightarrow> render kv tmpl = tmpl)
   \<and> (brace_free k' \<and> (\<forall>(k, v) \<in> set kv. brace_free k \<and> k \<noteq> k') \<longrightarrow>
        render kv (pre @ token k' @ post) = render kv pre @ token k' @ render kv post)
   \<and> render [(''name'', ''x'')] ''Invalid argument: {name}.'' = ''Invalid argument: x.''"
proof -
  have ex: "render [(''name'', ''x'')] ''Invalid argument: {name}.'' = ''Invalid argument: x.''"
    by code_simp
  from replace_all_None [of out k v] replace_all_Some [of out k p v]
    replace_all_absent [of k out v] render_absent [of kv tmpl]
    render_placeholder [of k' kv pre post] ex
  show ?thesis by simp
qed

theorem render_pass_by_pass_witness:
  "str_find ''Invalid argument: {name}.'' (token ''banana'') 0 = None
   \<and> replace_all ''banana'' ''fruta'' ''Invalid argument: {name}.'' = ''Invalid argument: {name}.''
   \<and> str_find ''Invalid argument: {name}.'' (token ''name'') 0 = Some 18
   \<and> replace_all ''name'' ''O valor de {name}'' ''Invalid argument: {name}.''
        = ''Invalid argument: '' @ ''O valor de {name}'' @ replace_all ''name'' ''O valor de {name}'' ''.''
   \<and> \<not> sublist (token ''banana'') ''Invalid argument: {name}.''
   \<and> render [(''banana'', ''fruta''), (''index'', ''3'')] ''Invalid argument: {name}.''
        = ''Invalid argument: {name}.''
   \<and> brace_free ''name''
   \<and> render [(''index'', ''3''), (''details'', ''{name}'')] (''{index}: '' @ token ''name'' @ '' ({details})'')
        = render [(''index'', ''3''), (''details'', ''{name}'')] ''{index}: '' @ token ''name''
            @ render [(''index'', ''3''), (''details'', ''{name}'')] '' ({details})''"
proof -
  let ?t = "''Invalid argument: {name}.''"
  have h1: "str_find ?t (token ''banana'') 0 = None" by code_simp
  have h2: "str_find ?t (token ''name'') 0 = Some 18" by code_simp
  have h3: "\<not> sublist (token ''banana'') ?t" by code_simp
  have h4: "\<forall>(k, v) \<in> set [(''banana'', ''fruta''), (''index'', ''3'')]. \<not> sublist (token k) ?t"
    by code_simp
  have h5: "brace_free ''name''" by (simp add: brace_free_def)
  have h6: "\<forall>(k, v) \<in> set [(''index'', ''3''), (''details'', ''{name}'')].
              brace_free k \<and> k \<noteq> ''name''"
    by (simp add: brace_free_def)
  from render_pass_by_pass [where k = "''banana''" and v = "''fruta''" and out = ?t
      and tmpl = ?t and kv = "[(''banana'', ''fruta''), (''index'', ''3'')]"]
    render_pass_by_pass [where k = "''name''" and v = "''O valor de {name}''" and out = ?t
      and p = 18]
    render_pass_by_pass [where kv = "[(''index'', ''3''), (''details'', ''{name}'')]"
      and k' = "''name''" and pre = "''{index}: ''" and post = "'' ({details})''"]
    h1 h2 h3 h4 h5 h6
  show ?thesis by (simp add: token_def)
qed

text \<open>
  Claim C3 as stated fails where it says that an inserted value is never substituted
  again and that a pair whose key does not occur in the template is ignored. In the
  template \<open>"Invalid argument: {name}."\<close> the token \<open>{index}\<close> does not occur; the pairs
  \<open>(name, "{index}")\<close>, \<open>(index, "7")\<close> render \<open>"Invalid argument: 7."\<close>: the value
  \<open>"{index}"\<close> that the first pair inserted was replaced by the pass of the second pair,
  which was not ignored (without it the result is \<open>"Invalid argument: {index}."\<close>). The
  same happens to a value that contains the token of its own key when the key comes
  twice: \<open>(name, "{name}")\<close>, \<open>(name, "y")\<close> render \<open>"Invalid argument: y."\<close>.
\<close>

theorem render_chained_counterexample:
  "str_find ''Invalid argument: {name}.'' (token ''index'') 0 = None
   \<and> render [(''name'', ''{index}''), (''index'', ''7'')] ''Invalid argument: {name}.''
        = ''Invalid argument: 7.''
   \<and> render [(''name'', ''{index}'')] ''Invalid argument: {name}.''
        = ''Invalid argument: {index}.''
   \<and> render [(''name'', ''{name}''), (''name'', ''y'')] ''Invalid argument: {name}.''
        = ''Invalid argument: y.''"
  by code_simp

section \<open>The raise operation\<close>

lemma log_error_eq:
  assumes "Config_read s = Some cfg"
  shows "log_error tr t now e kv s =
           (if sev_lt (default_severity tr e) (min_severity cfg) then s
            else ErrorManager_log t (log_record tr cfg t now e kv) s)"
  using assms by (simp add: log_error_def log_record_def Let_def)

lemma FVG_ERROR_eq:
  assumes "Config_read s = Some cfg"
  shows "FVG_ERROR tr t now now' e kv s =
     (let s1 = log_error tr t now e kv s in
      if policy cfg = Throw \<and> sev_ge (default_severity tr e) Error then
        (if fst (ErrorManager_flush t s1) \<noteq> []
         then (Inl (FVGException (last (fst (ErrorManager_flush t s1)))),
               snd (ErrorManager_flush t s1))
         else (Inl (FVGException (fallback_record tr t now' e)),
               snd (ErrorManager_flush t s1)))
      else (Inr (), s1))"
  using assms
  by (simp add: FVG_ERROR_def Let_def fallback_record_def split: prod.splits)

lemma ErrorManager_log_default:
  assumes "Config_read s = Some cfg" and "logger cfg = Some ThreadLocalBufferLogger"
  shows "ErrorManager_log t r s =
           (if length (tl_buf s t) < thread_buffer_cap cfg
            then s\<lparr>tl_buf := (tl_buf s)(t := tl_buf s t @ [r])\<rparr> else s)"
  using assms by (simp add: ErrorManager_log_def ThreadLocalBufferLogger_log_def Let_def)

lemma ErrorManager_flush_default:
  assumes "Config_read s = Some cfg" and "logger cfg = Some ThreadLocalBufferLogger"
  shows "ErrorManager_flush t s = (tl_buf s t, s\<lparr>tl_buf := (tl_buf s)(t := [])\<rparr>)"
  using assms by (simp add: ErrorManager_flush_def ThreadLocalBufferLogger_flush_def)

text \<open>
  Claim C1. Under the current configuration \<open>cfg\<close>, for every value \<open>e\<close> of an enum with
  traits \<open>tr\<close> and every list of pairs, \<open>FVG_ERROR\<close> throws an \<open>FVGException\<close> if and only
  if \<open>policy = Throw\<close> and \<open>default_severity(e) >= Error\<close>; otherwise the statement
  completes. With policy \<open>Throw\<close> and a severity below \<open>Error\<close> that is not below
  \<open>min_severity\<close> (a \<open>Warning\<close>, say), nothing is thrown and the rendered record is logged:
  the final state is that of \<open>ErrorManager::log\<close> on this record, which for the default
  logger with room in the buffer of the thread appends it. With policy \<open>Status\<close> nothing is
  thrown, whatever the severity, and only the dispatch of \<open>log_error\<close> takes place.
\<close>

theorem raise_iff_throw_and_error:
  assumes "Config_read s = Some cfg"
  shows "((\<exists>r. fst (FVG_ERROR tr t now now' e kv s) = Inl (FVGException r))
            \<longleftrightarrow> policy cfg = Throw \<and> sev_ge (default_severity tr e) Error)
    \<and> (fst (FVG_ERROR tr t now now' e kv s) = Inr ()
            \<longleftrightarrow> \<not> (policy cfg = Throw \<and> sev_ge (default_severity tr e) Error))
    \<and> (policy cfg = Throw \<and> sev_lt (default_severity tr e) Error
          \<and> sev_ge (default_severity tr e) (min_severity cfg) \<longrightarrow>
        FVG_ERROR tr t now now' e kv s
          = (Inr (), ErrorManager_log t (log_record tr cfg t now e kv) s))
    \<and> (policy cfg = Throw \<and> sev_lt (default_severity tr e) Error
          \<and> sev_ge (default_severity tr e) (min_severity cfg)
          \<and> logger cfg = Some ThreadLocalBufferLogger
          \<and> length (tl_buf s t) < thread_buffer_cap cfg \<longrightarrow>
        tl_buf (snd (FVG_ERROR tr t now now' e kv s)) t
          = tl_buf s t @ [log_record tr cfg t now e kv])
    \<and> (policy cfg = Status \<longrightarrow> FVG_ERROR tr t now now' e kv s
          = (Inr (), log_error tr t now e kv s))"
proof -
  note F = FVG_ERROR_eq [OF assms, of tr t now now' e kv]
  have a: "(\<exists>r. fst (FVG_ERROR tr t now now' e kv s) = Inl (FVGException r))
            \<longleftrightarrow> policy cfg = Throw \<and> sev_ge (default_severity tr e) Error"
    by (simp add: F Let_def)
  have b: "fst (FVG_ERROR tr t now now' e kv s) = Inr ()
            \<longleftrightarrow> \<not> (policy cfg = Throw \<and> sev_ge (default_severity tr e) Error)"
    by (simp add: F Let_def)
  have c: "FVG_ERROR tr t now now' e kv s
          = (Inr (), ErrorManager_log t (log_record tr cfg t now e kv) s)"
    if "policy cfg = Throw" "sev_lt (default_severity tr e) Error"
       "sev_ge (default_severity tr e) (min_severity cfg)"
    using that by (simp add: F Let_def log_error_eq [OF assms] sev_lt_def sev_ge_def)
  have d: "tl_buf (snd (FVG_ERROR tr t now now' e kv s)) t
          = tl_buf s t @ [log_record tr cfg t now e kv]"
    if "policy cfg = Throw" "sev_lt (default_severity tr e) Error"
       "sev_ge (default_severity tr e) (min_severity cfg)"
       "logger cfg = Some ThreadLocalBufferLogger"
       "length (tl_buf s t) < thread_buffer_cap cfg"
    using that c by (simp add: ErrorManager_log_default [OF assms])
  have e: "FVG_ERROR tr t now now' e kv s = (Inr (), log_error tr t now e kv s)"
    if "policy cfg = Status"
    using that by (simp add: F Let_def)
  from a b c d e show ?thesis by blast
qed

lemma CoreErr_severity:
  "default_severity CoreErr_traits InvalidArgument = Error"
  "default_severity CoreErr_traits NotImplemented = Warning"
  "default_severity CoreErr_traits AssertFailed = Fatal"
  by (simp_all add: CoreErr_traits_def get_core_info_def get_core_error_info_data_def
      CoreErr_defs)

lemma initial_Config_read:
  "Config_read (initial_state x) = Some default_config"
  by (simp add: Config_read_def initial_state_def deref_def)

theorem raise_iff_throw_and_error_witness:
  "Config_read (initial_state ()) = Some (default_config :: unit ErrorConfig)
   \<and> policy (default_config :: unit ErrorConfig) = Throw
   \<and> default_severity CoreErr_traits NotImplemented = Warning
   \<and> fst (FVG_ERROR CoreErr_traits 0 10 11 NotImplemented [] (initial_state ())) = Inr ()
   \<and> tl_buf (snd (FVG_ERROR CoreErr_traits 0 10 11 NotImplemented [] (initial_state ()))) 0
        = [log_record CoreErr_traits (default_config :: unit ErrorConfig) 0 10 NotImplemented []]
   \<and> (\<exists>r. fst (FVG_ERROR CoreErr_traits 0 10 11 InvalidArgument [(''name'', ''x'')]
                  (initial_state ())) = Inl (FVGException r))
   \<and> policy cfg_status = Status
   \<and> fst (FVG_ERROR CoreErr_traits 0 10 11 AssertFailed []
             (Config_set cfg_status (initial_state ()))) = Inr ()"
proof -
  have h1: "Config_read (initial_state ()) = Some (default_config :: unit ErrorConfig)"
    by (rule initial_Config_read)
  have h2: "Config_read (Config_set cfg_status (initial_state ())) = Some cfg_status"
    by (rule Config_set_current)
  have p: "policy (default_config :: unit ErrorConfig) = Throw"
    "min_severity (default_config :: unit ErrorConfig) = Warning"
    "logger (default_config :: unit ErrorConfig) = Some ThreadLocalBufferLogger"
    "thread_buffer_cap (default_config :: unit ErrorConfig) = 256"
    "policy cfg_status = Status"
    by (simp_all add: default_config_def cfg_status_def)
  have b: "tl_buf (initial_state ()) 0 = []" by (simp add: initial_state_def)
  note w1 = raise_iff_throw_and_error [OF h1, of CoreErr_traits 0 10 11 NotImplemented "[]"]
  note w2 = raise_iff_throw_and_error [OF h1, of CoreErr_traits 0 10 11 InvalidArgument
      "[(''name'', ''x'')]"]
  note w3 = raise_iff_throw_and_error [OF h2, of CoreErr_traits 0 10 11 AssertFailed "[]"]
  have a1: "fst (FVG_ERROR CoreErr_traits 0 10 11 NotImplemented [] (initial_state ())) = Inr ()"
    using w1 [THEN conjunct2, THEN conjunct1]
    by (simp add: p CoreErr_severity sev_ge_def)
  have a2: "tl_buf (snd (FVG_ERROR CoreErr_traits 0 10 11 NotImplemented [] (initial_state ()))) 0
        = [log_record CoreErr_traits (default_config :: unit ErrorConfig) 0 10 NotImplemented []]"
    using w1 [THEN conjunct2, THEN conjunct2, THEN conjunct2, THEN conjunct1]
    by (simp add: p b CoreErr_severity sev_lt_def sev_ge_def)
  have a3: "\<exists>r. fst (FVG_ERROR CoreErr_traits 0 10 11 InvalidArgument [(''name'', ''x'')]
                  (initial_state ())) = Inl (FVGException r)"
    using w2 [THEN conjunct1]
    by (simp add: p CoreErr_severity sev_ge_def)
  have a4: "fst (FVG_ERROR CoreErr_traits 0 10 11 AssertFailed []
             (Config_set cfg_status (initial_state ()))) = Inr ()"
    using w3 [THEN conjunct2, THEN conjunct1]
    by (simp add: p)
  from h1 p(1,5) a1 a2 a3 a4 show ?thesis by (simp add: CoreErr_severity)
qed

text \<open>
  Claim C2, as the code has it. Under policy \<open>Throw\<close> with \<open>default_severity(e) >= Error\<close>,
  \<open>FVG_ERROR\<close> always throws (the signal is never skipped). When the severity is not below
  \<open>min_severity\<close>, the active logger is the default thread-local logger and the buffer of
  the thread has room, the exception carries the record that \<open>log_error\<close> logged, whose
  code is \<open>code(e)\<close> and whose message is the template of the configured language with the
  pairs substituted, whatever the buffer held before. When the drained buffer is empty,
  the exception carries the fall-back record: \<open>code(e)\<close>, the severity of \<open>e\<close> and the
  generic message.
\<close>

theorem raise_carries_logged_record:
  assumes "Config_read s = Some cfg" and "policy cfg = Throw"
    and "sev_ge (default_severity tr e) Error"
  shows "(\<exists>r. fst (FVG_ERROR tr t now now' e kv s) = Inl (FVGException r))
    \<and> (sev_ge (default_severity tr e) (min_severity cfg)
          \<and> logger cfg = Some ThreadLocalBufferLogger
          \<and> length (tl_buf s t) < thread_buffer_cap cfg \<longrightarrow>
        fst (FVG_ERROR tr t now now' e kv s)
          = Inl (FVGException (log_record tr cfg t now e kv)))
    \<and> code (log_record tr cfg t now e kv) = code_of tr e
    \<and> message (log_record tr cfg t now e kv)
         = render kv (if language cfg = PtBR then ptBR tr e else enUS tr e)
    \<and> (fst (ErrorManager_flush t (log_error tr t now e kv s)) = [] \<longrightarrow>
        fst (FVG_ERROR tr t now now' e kv s)
          = Inl (FVGException (fallback_record tr t now' e)))
    \<and> code (fallback_record tr t now' e) = code_of tr e
    \<and> severity (fallback_record tr t now' e) = default_severity tr e
    \<and> message (fallback_record tr t now' e) = fallback_message"
proof -
  note F = FVG_ERROR_eq [OF assms(1), of tr t now now' e kv]
  have a: "\<exists>r. fst (FVG_ERROR tr t now now' e kv s) = Inl (FVGException r)"
    using assms(2,3) by (simp add: F Let_def)
  have b: "fst (FVG_ERROR tr t now now' e kv s)
          = Inl (FVGException (log_record tr cfg t now e kv))"
    if h: "sev_ge (default_severity tr e) (min_severity cfg)"
       "logger cfg = Some ThreadLocalBufferLogger"
       "length (tl_buf s t) < thread_buffer_cap cfg"
  proof -
    let ?r = "log_record tr cfg t now e kv"
    let ?s1 = "s\<lparr>tl_buf := (tl_buf s)(t := tl_buf s t @ [?r])\<rparr>"
    have l: "log_error tr t now e kv s = ?s1"
      using h by (simp add: log_error_eq [OF assms(1)] ErrorManager_log_default [OF assms(1)]
          sev_lt_def sev_ge_def)
    have c1: "Config_read ?s1 = Some cfg" using assms(1) by simp
    have "fst (ErrorManager_flush t ?s1) = tl_buf s t @ [?r]"
      by (simp add: ErrorManager_flush_default [OF c1 h(2)])
    then show ?thesis using assms(2,3) by (simp add: F Let_def l)
  qed
  have c: "fst (FVG_ERROR tr t now now' e kv s)
          = Inl (FVGException (fallback_record tr t now' e))"
    if "fst (ErrorManager_flush t (log_error tr t now e kv s)) = []"
    using that assms(2,3) by (simp add: F Let_def)
  from a b c show ?thesis
    by (simp add: log_record_def fallback_record_def)
qed

theorem raise_carries_logged_record_witness:
  "Config_read (ErrorManager_log 0 (rec_n 1) (initial_state ()))
       = Some (default_config :: unit ErrorConfig)
   \<and> tl_buf (ErrorManager_log 0 (rec_n 1) (initial_state ())) 0 = [rec_n 1]
   \<and> fst (FVG_ERROR CoreErr_traits 0 10 11 InvalidArgument [(''name'', ''x'')]
             (ErrorManager_log 0 (rec_n 1) (initial_state ())))
       = Inl (FVGException
           \<lparr>code = 0x00010001, severity = Error,
            message = ''Argumento inv'' @ [CHR 0xC3, CHR 0xA1] @ ''lido: x.'',
            ts = 10, tid = 0\<rparr>)
   \<and> Config_read (Config_set cfg_min_fatal (initial_state ())) = Some cfg_min_fatal
   \<and> fst (ErrorManager_flush 0 (log_error CoreErr_traits 0 10 InvalidArgument
             [(''name'', ''x'')] (Config_set cfg_min_fatal (initial_state ())))) = []
   \<and> fst (FVG_ERROR CoreErr_traits 0 10 11 InvalidArgument [(''name'', ''x'')]
             (Config_set cfg_min_fatal (initial_state ())))
       = Inl (FVGException
           \<lparr>code = 0x00010001, severity = Error, message = fallback_message,
            ts = 11, tid = 0\<rparr>)"
proof -
  let ?s = "ErrorManager_log 0 (rec_n 1) (initial_state ())"
  let ?s' = "Config_set cfg_min_fatal (initial_state ())"
  have h1: "Config_read ?s = Some (default_config :: unit ErrorConfig)"
    by (simp add: initial_Config_read)
  have h2: "Config_read ?s' = Some cfg_min_fatal" by (rule Config_set_current)
  have p: "policy (default_config :: unit ErrorConfig) = Throw"
    "min_severity (default_config :: unit ErrorConfig) = Warning"
    "logger (default_config :: unit ErrorConfig) = Some ThreadLocalBufferLogger"
    "thread_buffer_cap (default_config :: unit ErrorConfig) = 256"
    "language (default_config :: unit ErrorConfig) = PtBR"
    "policy cfg_min_fatal = Throw"
    by (simp_all add: default_config_def cfg_min_fatal_def)
  have g: "sev_ge (default_severity CoreErr_traits InvalidArgument) Error"
    by (simp add: CoreErr_severity sev_ge_def)
  have b: "tl_buf ?s 0 = [rec_n 1]" by code_simp
  have r: "log_record CoreErr_traits (default_config :: unit ErrorConfig) 0 10 InvalidArgument
             [(''name'', ''x'')]
      = \<lparr>code = 0x00010001, severity = Error,
         message = ''Argumento inv'' @ [CHR 0xC3, CHR 0xA1] @ ''lido: x.'', ts = 10, tid = 0\<rparr>"
    by code_simp
  have f: "fallback_record CoreErr_traits 0 11 InvalidArgument
      = \<lparr>code = 0x00010001, severity = Error, message = fallback_message, ts = 11, tid = 0\<rparr>"
    by code_simp
  have e: "fst (ErrorManager_flush 0 (log_error CoreErr_traits 0 10 InvalidArgument
             [(''name'', ''x'')] ?s')) = []"
    by code_simp
  from raise_carries_logged_record [OF h1 p(1) g, of 0 10 11 "[(''name'', ''x'')]"]
    raise_carries_logged_record [OF h2 p(6) g, of 0 10 11 "[(''name'', ''x'')]"]
    h1 h2 p b r f e
  show ?thesis by (simp add: sev_ge_def CoreErr_severity)
qed

text \<open>
  Claim C2 as stated fails. With \<open>min_severity = Fatal\<close> an \<open>Error\<close> is filtered out
  before it is rendered, and on an empty buffer the exception carries the generic
  fall-back message, not the rendered one. With capacity 1 and a warning already in the
  buffer, the new record is dropped and the exception carries the warning that was there
  before: another code and another message.
\<close>

theorem raise_message_counterexample:
  "fst (FVG_ERROR CoreErr_traits 0 10 11 InvalidArgument [(''name'', ''x'')]
          (Config_set cfg_min_fatal (initial_state ())))
      = Inl (FVGException
          \<lparr>code = 0x00010001, severity = Error, message = fallback_message,
           ts = 11, tid = 0\<rparr>)
   \<and> fallback_message \<noteq> render [(''name'', ''x'')] (ptBR CoreErr_traits InvalidArgument)
   \<and> fst (FVG_ERROR CoreErr_traits 0 10 11 InvalidArgument [(''name'', ''x'')]
          (snd (FVG_ERROR CoreErr_traits 0 5 6 NotImplemented []
             (Config_set cfg_cap1 (initial_state ())))))
      = Inl (FVGException
          \<lparr>code = 0x00010003, severity = Warning,
           message = ptBR CoreErr_traits NotImplemented, ts = 5, tid = 0\<rparr>)
   \<and> code_of CoreErr_traits InvalidArgument = 0x00010001"
  by code_simp

text \<open>
  Claim C10, as the code has it. When the active logger is the default thread-local
  logger and the buffer of the calling thread holds one record or more, an \<open>FVG_ERROR\<close>
  that reaches the throwing branch (policy \<open>Throw\<close>, severity at least \<open>Error\<close>) drains
  the whole buffer of the thread: the exception carries the last drained record only,
  where the drained sequence is the former buffer, followed by the new record if it was
  accepted; the state after the throw is the state before with the buffer of the thread
  emptied, so every other drained record is gone and the next flush returns nothing.
\<close>

theorem raise_drains_thread_buffer:
  assumes "Config_read s = Some cfg" and "logger cfg = Some ThreadLocalBufferLogger"
    and "policy cfg = Throw" and "sev_ge (default_severity tr e) Error"
    and "tl_buf s t \<noteq> []"
  shows "FVG_ERROR tr t now now' e kv s
           = (Inl (FVGException (last (tl_buf (log_error tr t now e kv s) t))),
              s\<lparr>tl_buf := (tl_buf s)(t := [])\<rparr>)
    \<and> (tl_buf (log_error tr t now e kv s) t = tl_buf s t
         \<or> tl_buf (log_error tr t now e kv s) t = tl_buf s t @ [log_record tr cfg t now e kv])
    \<and> tl_buf (snd (FVG_ERROR tr t now now' e kv s)) t = []
    \<and> fst (ErrorManager_flush t (snd (FVG_ERROR tr t now now' e kv s))) = []"
proof -
  note F = FVG_ERROR_eq [OF assms(1), of tr t now now' e kv]
  let ?r = "log_record tr cfg t now e kv"
  let ?s1 = "log_error tr t now e kv s"
  let ?s2 = "s\<lparr>tl_buf := (tl_buf s)(t := [])\<rparr>"
  have l: "?s1 = s \<or> ?s1 = s\<lparr>tl_buf := (tl_buf s)(t := tl_buf s t @ [?r])\<rparr>"
    by (simp add: log_error_eq [OF assms(1)] ErrorManager_log_default [OF assms(1,2)])
  have c1: "Config_read ?s1 = Some cfg" using assms(1) by simp
  have fl: "ErrorManager_flush t ?s1 = (tl_buf ?s1 t, ?s1\<lparr>tl_buf := (tl_buf ?s1)(t := [])\<rparr>)"
    by (rule ErrorManager_flush_default [OF c1 assms(2)])
  have ne: "tl_buf ?s1 t \<noteq> []" using l assms(5) by auto
  have s2: "?s1\<lparr>tl_buf := (tl_buf ?s1)(t := [])\<rparr> = ?s2" using l by auto
  have main: "FVG_ERROR tr t now now' e kv s = (Inl (FVGException (last (tl_buf ?s1 t))), ?s2)"
    using assms(3,4) ne by (simp add: F Let_def fl s2)
  have b: "tl_buf ?s1 t = tl_buf s t \<or> tl_buf ?s1 t = tl_buf s t @ [?r]"
    using l by auto
  have c2: "Config_read ?s2 = Some cfg" using assms(1) by simp
  have d: "fst (ErrorManager_flush t ?s2) = []"
    by (simp add: ErrorManager_flush_default [OF c2 assms(2)])
  from main b d show ?thesis by simp
qed

theorem raise_drains_thread_buffer_witness:
  "Config_read (ErrorManager_log 0 (rec_n 2) (ErrorManager_log 0 (rec_n 1) (initial_state ())))
       = Some (default_config :: unit ErrorConfig)
   \<and> tl_buf (ErrorManager_log 0 (rec_n 2) (ErrorManager_log 0 (rec_n 1) (initial_state ()))) 0
       = [rec_n 1, rec_n 2]
   \<and> fst (FVG_ERROR CoreErr_traits 0 10 11 InvalidArgument [(''name'', ''x'')]
         (ErrorManager_log 0 (rec_n 2) (ErrorManager_log 0 (rec_n 1) (initial_state ()))))
       = Inl (FVGException
           (log_record CoreErr_traits (default_config :: unit ErrorConfig) 0 10 InvalidArgument
              [(''name'', ''x'')]))
   \<and> tl_buf (snd (FVG_ERROR CoreErr_traits 0 10 11 InvalidArgument [(''name'', ''x'')]
         (ErrorManager_log 0 (rec_n 2) (ErrorManager_log 0 (rec_n 1) (initial_state ()))))) 0
       = []
   \<and> fst (ErrorManager_flush 0
         (snd (FVG_ERROR CoreErr_traits 0 10 11 InvalidArgument [(''name'', ''x'')]
            (ErrorManager_log 0 (rec_n 2) (ErrorManager_log 0 (rec_n 1) (initial_state ()))))))
       = []"
proof -
  let ?s0 = "ErrorManager_log 0 (rec_n 1) (initial_state ())"
  let ?s = "ErrorManager_log 0 (rec_n 2) ?s0"
  have p: "policy (default_config :: unit ErrorConfig) = Throw"
    "min_severity (default_config :: unit ErrorConfig) = Warning"
    "logger (default_config :: unit ErrorConfig) = Some ThreadLocalBufferLogger"
    "thread_buffer_cap (default_config :: unit ErrorConfig) = 256"
    by (simp_all add: default_config_def)
  have h1: "Config_read ?s = Some (default_config :: unit ErrorConfig)"
    by (simp add: initial_Config_read)
  have b: "tl_buf ?s 0 = [rec_n 1, rec_n 2]" by code_simp
  have ne: "tl_buf ?s 0 \<noteq> []" unfolding b by simp
  have g: "sev_ge (default_severity CoreErr_traits InvalidArgument) Error"
    by (simp add: CoreErr_severity sev_ge_def)
  have l: "tl_buf (log_error CoreErr_traits 0 10 InvalidArgument [(''name'', ''x'')] ?s) 0
      = [rec_n 1, rec_n 2,
         log_record CoreErr_traits (default_config :: unit ErrorConfig) 0 10 InvalidArgument
           [(''name'', ''x'')]]"
    by code_simp
  note w = raise_drains_thread_buffer [OF h1 p(3) p(1) g ne, of 10 11 "[(''name'', ''x'')]"]
  have a1: "fst (FVG_ERROR CoreErr_traits 0 10 11 InvalidArgument [(''name'', ''x'')] ?s)
       = Inl (FVGException
           (log_record CoreErr_traits (default_config :: unit ErrorConfig) 0 10 InvalidArgument
              [(''name'', ''x'')]))"
    using w [THEN conjunct1] unfolding l by simp
  note a2 = w [THEN conjunct2, THEN conjunct2, THEN conjunct1]
  note a3 = w [THEN conjunct2, THEN conjunct2, THEN conjunct2]
  from h1 b a1 a2 a3 show ?thesis by (intro conjI)
qed

text \<open>
  Claim C10 as stated fails when the active logger is not the thread-local one. After a
  record was buffered on thread 0 under the default configuration, a configuration with
  no logger is installed: \<open>FVG_ERROR\<close> reaches the throwing branch and throws the fall-back
  record, and the buffer of the thread still holds the record. With a custom logger
  installed instead, \<open>FVG_ERROR\<close> throws the record that the custom logger returned, and
  again the buffer of the thread still holds its record.
\<close>

theorem raise_no_logger_counterexample:
  "tl_buf (Config_set cfg_no_logger (ErrorManager_log 0 (rec_n 1) (initial_state ()))) 0
      = [rec_n 1]
   \<and> fst (FVG_ERROR CoreErr_traits 0 10 11 InvalidArgument []
            (Config_set cfg_no_logger (ErrorManager_log 0 (rec_n 1) (initial_state ()))))
      = Inl (FVGException
          \<lparr>code = 0x00010001, severity = Error, message = fallback_message,
           ts = 11, tid = 0\<rparr>)
   \<and> tl_buf (snd (FVG_ERROR CoreErr_traits 0 10 11 InvalidArgument []
            (Config_set cfg_no_logger (ErrorManager_log 0 (rec_n 1) (initial_state ()))))) 0
      = [rec_n 1]
   \<and> fst (FVG_ERROR CoreErr_traits 0 10 11 InvalidArgument []
            (Config_set cfg_mock (ErrorManager_log 0 (rec_n 1) (initial_state []))))
      = Inl (FVGException
          \<lparr>code = 0x00010001, severity = Error,
           message = ''Argumento inv'' @ [CHR 0xC3, CHR 0xA1] @ ''lido: {name}.'',
           ts = 10, tid = 0\<rparr>)
   \<and> tl_buf (snd (FVG_ERROR CoreErr_traits 0 10 11 InvalidArgument []
            (Config_set cfg_mock (ErrorManager_log 0 (rec_n 1) (initial_state []))))) 0
      = [rec_n 1]"
  by code_simp

end
